theory Spec2Isabelle
  imports Complex_Main "HOL-Library.AList"
begin

section \<open>Numbers: IEEE 754 binary64\<close>

text \<open>
  The TypeScript \<^verbatim>\<open>number\<close> is a double. A finite double is a sign, a significand and an
  exponent, with value \<open>\<plusminus> m * 2 ^ e\<close>; the results of the operations are in canonical form
  (significand odd, or zero with exponent zero), so that equal numbers of the same sign are
  equal values of the type. Both zeros, both infinities and NaN are values.
\<close>

datatype double = Finite bool nat int | Infinity bool | NaN

text \<open>The number of binary digits of a natural number.\<close>

fun bitlength :: "nat \<Rightarrow> int" where
  "bitlength n = (if n = 0 then 0 else 1 + bitlength (n div 2))"

fun canonical :: "bool \<Rightarrow> nat \<Rightarrow> int \<Rightarrow> double" where
  "canonical s m e =
     (if m = 0 then Finite s 0 0
      else if even m then canonical s (m div 2) (e + 1)
      else Finite s m e)"

declare bitlength.simps [simp del]

declare canonical.simps [simp del]

text \<open>
  Rounding to nearest, ties to even. \<open>round_double s n sticky e\<close> is the double nearest to
  the number of sign \<open>s\<close> and magnitude \<open>n * 2 ^ e\<close>, or, when \<open>sticky\<close> is set, of a magnitude
  strictly between \<open>n * 2 ^ e\<close> and \<open>(n + 1) * 2 ^ e\<close>. The significand keeps 53 binary digits,
  fewer below \<open>2 ^ (-1022)\<close> where the spacing stays \<open>2 ^ (-1074)\<close>; \<open>k\<close> is the number of digits
  dropped. A rounded magnitude of \<open>2 ^ 1024\<close> or more is infinite.
\<close>

definition finish :: "bool \<Rightarrow> nat \<Rightarrow> int \<Rightarrow> double" where
  "finish s m e = (if bitlength m + e > 1024 then Infinity s else canonical s m e)"

definition round_double :: "bool \<Rightarrow> nat \<Rightarrow> bool \<Rightarrow> int \<Rightarrow> double" where
  "round_double s n sticky e =
     (let k = max (bitlength n - 53) (- 1074 - e) in
      if k \<le> 0 then finish s n e
      else
        (let d = 2 ^ nat k;
             q = n div d;
             r = n mod d;
             half = d div 2;
             up = (r > half \<or> (r = half \<and> (sticky \<or> odd q)))
         in finish s (if up then q + 1 else q) (e + k)))"

definition signed :: "bool \<Rightarrow> nat \<Rightarrow> int" where
  "signed s m = (if s then - int m else int m)"

fun fneg :: "double \<Rightarrow> double" where
  "fneg (Finite s m e) = Finite (\<not> s) m e"
| "fneg (Infinity s) = Infinity (\<not> s)"
| "fneg NaN = NaN"

text \<open>
  \<^verbatim>\<open>a + b\<close>: the exact sum of two finite doubles is an integer multiple of the smaller unit,
  and is rounded. An exact zero sum is \<open>-0\<close> only when both operands are negative.
\<close>

fun fadd :: "double \<Rightarrow> double \<Rightarrow> double" where
  "fadd NaN b = NaN"
| "fadd a NaN = NaN"
| "fadd (Infinity s) (Infinity t) = (if s = t then Infinity s else NaN)"
| "fadd (Infinity s) (Finite t n f) = Infinity s"
| "fadd (Finite s m e) (Infinity t) = Infinity t"
| "fadd (Finite s m e) (Finite t n f) =
     (let g = min e f;
          i = signed s (m * 2 ^ nat (e - g)) + signed t (n * 2 ^ nat (f - g))
      in if i = 0 then Finite (s \<and> t) 0 0
         else round_double (i < 0) (nat \<bar>i\<bar>) False g)"

text \<open>\<^verbatim>\<open>a - b\<close>.\<close>

definition fsub :: "double \<Rightarrow> double \<Rightarrow> double" where
  "fsub a b = fadd a (fneg b)"

text \<open>\<^verbatim>\<open>a * b\<close>.\<close>

fun fmul :: "double \<Rightarrow> double \<Rightarrow> double" where
  "fmul NaN b = NaN"
| "fmul a NaN = NaN"
| "fmul (Infinity s) (Infinity t) = Infinity (s \<noteq> t)"
| "fmul (Infinity s) (Finite t n f) = (if n = 0 then NaN else Infinity (s \<noteq> t))"
| "fmul (Finite s m e) (Infinity t) = (if m = 0 then NaN else Infinity (s \<noteq> t))"
| "fmul (Finite s m e) (Finite t n f) =
     (if m * n = 0 then Finite (s \<noteq> t) 0 0
      else round_double (s \<noteq> t) (m * n) False (e + f))"

text \<open>
  \<^verbatim>\<open>a / b\<close>. A finite non-zero number divided by a zero is an infinity, a zero divided by a
  zero is NaN; nothing is thrown. The quotient of two significands is taken to at least 56
  binary digits, the remainder is the sticky flag.
\<close>

fun fdiv :: "double \<Rightarrow> double \<Rightarrow> double" where
  "fdiv NaN b = NaN"
| "fdiv a NaN = NaN"
| "fdiv (Infinity s) (Infinity t) = NaN"
| "fdiv (Infinity s) (Finite t n f) = Infinity (s \<noteq> t)"
| "fdiv (Finite s m e) (Infinity t) = Finite (s \<noteq> t) 0 0"
| "fdiv (Finite s m e) (Finite t n f) =
     (if n = 0 then (if m = 0 then NaN else Infinity (s \<noteq> t))
      else if m = 0 then Finite (s \<noteq> t) 0 0
      else
        (let sh = 55 + bitlength n;
             q = (m * 2 ^ nat sh) div n;
             r = (m * 2 ^ nat sh) mod n
         in round_double (s \<noteq> t) q (r \<noteq> 0) (e - f - sh)))"

text \<open>\<^verbatim>\<open>a < b\<close> and \<^verbatim>\<open>a === b\<close> on numbers: false when an operand is NaN; the two zeros are
  equal.\<close>

fun dlt :: "double \<Rightarrow> double \<Rightarrow> bool" where
  "dlt NaN b = False"
| "dlt a NaN = False"
| "dlt (Infinity s) (Infinity t) = (s \<and> \<not> t)"
| "dlt (Infinity s) (Finite t n f) = s"
| "dlt (Finite s m e) (Infinity t) = (\<not> t)"
| "dlt (Finite s m e) (Finite t n f) =
     (let g = min e f
      in signed s (m * 2 ^ nat (e - g)) < signed t (n * 2 ^ nat (f - g)))"

fun deq :: "double \<Rightarrow> double \<Rightarrow> bool" where
  "deq NaN b = False"
| "deq a NaN = False"
| "deq (Infinity s) (Infinity t) = (s = t)"
| "deq (Infinity s) (Finite t n f) = False"
| "deq (Finite s m e) (Infinity t) = False"
| "deq (Finite s m e) (Finite t n f) =
     (let g = min e f
      in signed s (m * 2 ^ nat (e - g)) = signed t (n * 2 ^ nat (f - g)))"

text \<open>An integer literal of the source, as a double.\<close>

definition dbl :: "int \<Rightarrow> double" where
  "dbl i = (if i = 0 then Finite False 0 0 else round_double (i < 0) (nat \<bar>i\<bar>) False 0)"

text \<open>
  \<^verbatim>\<open>Math.min\<close> and \<^verbatim>\<open>Math.max\<close> of a list of numbers, as the language defines them: the
  running value starts at \<open>+\<infinity>\<close> (at \<open>-\<infinity>\<close>), NaN is returned as soon as it is met, and
  \<open>-0\<close> counts as smaller than \<open>+0\<close>.
\<close>

fun is_zero :: "bool \<Rightarrow> double \<Rightarrow> bool" where
  "is_zero sign (Finite s m e) = (m = 0 \<and> s = sign)"
| "is_zero sign d = False"

fun math_min_from :: "double \<Rightarrow> double list \<Rightarrow> double" where
  "math_min_from lowest [] = lowest"
| "math_min_from lowest (number # rest) =
     (if number = NaN then NaN
      else if is_zero True number \<and> is_zero False lowest then math_min_from number rest
      else if dlt number lowest then math_min_from number rest
      else math_min_from lowest rest)"

definition math_min :: "double list \<Rightarrow> double" where
  "math_min numbers = math_min_from (Infinity False) numbers"

fun math_max_from :: "double \<Rightarrow> double list \<Rightarrow> double" where
  "math_max_from highest [] = highest"
| "math_max_from highest (number # rest) =
     (if number = NaN then NaN
      else if is_zero False number \<and> is_zero True highest then math_max_from number rest
      else if dlt highest number then math_max_from number rest
      else math_max_from highest rest)"

definition math_max :: "double list \<Rightarrow> double" where
  "math_max numbers = math_max_from (Infinity True) numbers"

text \<open>
  The real value of a finite double, and the doubles proper: a significand below \<open>2 ^ 53\<close>,
  an exponent from \<open>-1074\<close> on, a magnitude below \<open>2 ^ 1024\<close>.
\<close>

fun dval :: "double \<Rightarrow> real" where
  "dval (Finite s m e) = (if s then - (real m * 2 powi e) else real m * 2 powi e)"
| "dval d = 0"

fun is_finite :: "double \<Rightarrow> bool" where
  "is_finite (Finite s m e) = True"
| "is_finite d = False"

fun is_double :: "double \<Rightarrow> bool" where
  "is_double (Finite s m e) = (m < 2 ^ 53 \<and> - 1074 \<le> e \<and> bitlength m + e \<le> 1024)"
| "is_double d = True"

text \<open>The object \<^verbatim>\<open>{ x: number; y: number }\<close>.\<close>

record Point =
  px :: double
  py :: double

section \<open>CanvasUtils (src/lib/utils.ts)\<close>

definition screenToCanvas :: "double \<Rightarrow> double \<Rightarrow> Point \<Rightarrow> double \<Rightarrow> Point" where
  "screenToCanvas screenX screenY pan zoom =
     \<lparr>px = fdiv (fsub screenX (px pan)) zoom,
      py = fdiv (fsub screenY (py pan)) zoom\<rparr>"

definition canvasToScreen :: "double \<Rightarrow> double \<Rightarrow> Point \<Rightarrow> double \<Rightarrow> Point" where
  "canvasToScreen canvasX canvasY pan zoom =
     \<lparr>px = fadd (fmul canvasX zoom) (px pan),
      py = fadd (fmul canvasY zoom) (py pan)\<rparr>"

section \<open>Data model (types.ts, the second part of src/unnamed/part_000)\<close>

datatype NodeType = ApiGateway | Database | Cache | Queue | Service | Custom

datatype ConnectionType = Sync | Async | Bidirectional

datatype Audience = Technical | Executive | Adaptive

datatype Status = Draft | Generating | Completed

record Scaling =
  horizontal :: "bool option"
  vertical :: "bool option"
  auto_scaling :: "bool option"
  scaling_details :: "string option"

record FaultTolerance =
  replication :: "bool option"
  backup :: "bool option"
  failover :: "bool option"
  fault_details :: "string option"

text \<open>
  Optional fields are options. The type parameter \<open>'s\<close> is the representation of the
  \<^verbatim>\<open>specifications\<close> object of a node: the functions below only pass it on, so they are
  stated for any representation; where object identity matters it is a heap reference.
  Field names carry the prefix of their interface (\<open>n_id\<close> is \<^verbatim>\<open>SystemNode.id\<close>).
\<close>

record 's SystemNode =
  n_id :: string
  n_type :: NodeType
  n_name :: string
  n_description :: string
  n_position :: Point
  n_specifications :: 's
  n_scaling :: "Scaling option"
  n_fault_tolerance :: "FaultTolerance option"
  n_connections :: "string list option"
  n_icon :: "string option"
  n_color :: "string option"

record NodeConnection =
  c_id :: string
  c_source :: string
  c_target :: string
  c_type :: ConnectionType
  c_label :: "string option"
  c_description :: "string option"
  c_protocol :: "string option"

record 's ProjectVersion =
  v_id :: string
  v_version :: double
  v_timestamp :: string
  v_nodes :: "'s SystemNode list"
  v_connections :: "NodeConnection list"
  v_snapshot_name :: "string option"

record 's Project =
  p_id :: string
  p_name :: string
  p_requirements :: string
  p_audience :: Audience
  p_nodes :: "'s SystemNode list"
  p_connections :: "NodeConnection list"
  p_status :: Status
  p_created_at :: string
  p_updated_at :: string
  p_versions :: "'s ProjectVersion list"

record 's ComponentTemplate =
  t_id :: string
  t_type :: NodeType
  t_name :: string
  t_description :: string
  t_icon :: string
  t_defaultSpecs :: 's

section \<open>Errors and built-ins\<close>

text \<open>A thrown exception is a value of this type.\<close>

datatype js_error = TypeError | SyntaxError | ReferenceError

text \<open>
  \<^verbatim>\<open>Array.prototype.findIndex\<close>: the index of the first element satisfying the predicate,
  \<open>-1\<close> when there is none.
\<close>

fun findIndex :: "('a \<Rightarrow> bool) \<Rightarrow> 'a list \<Rightarrow> int" where
  "findIndex P [] = -1"
| "findIndex P (a # as) =
     (if P a then 0 else (let i = findIndex P as in if i < 0 then -1 else i + 1))"

text \<open>Decimal digits of a natural number and of an integer, as template strings print them.\<close>

fun digits10 :: "nat \<Rightarrow> string" where
  "digits10 n =
     (if n < 10 then [''0123456789'' ! n]
      else digits10 (n div 10) @ [''0123456789'' ! (n mod 10)])"

definition string_of_int :: "int \<Rightarrow> string" where
  "string_of_int i = (if i < 0 then CHR ''-'' # digits10 (nat (- i)) else digits10 (nat i))"

section \<open>generateId (src/lib/utils.ts)\<close>

text \<open>
  \<^verbatim>\<open>`${Date.now()}-${Math.random().toString(36).substr(2, 9)}`\<close>. The two readings of the
  environment are arguments: \<open>ms\<close> is the value of \<^verbatim>\<open>Date.now()\<close> and \<open>rnd\<close> the string
  \<^verbatim>\<open>Math.random().toString(36).substr(2, 9)\<close>.
\<close>

definition generateId :: "int \<Rightarrow> string \<Rightarrow> string" where
  "generateId ms rnd = string_of_int ms @ ''-'' @ rnd"

section \<open>ProjectStorage (src/lib/utils.ts)\<close>

text \<open>
  The item stored under \<^verbatim>\<open>STORAGE_KEY\<close> in localStorage: \<open>None\<close> when the key is absent,
  otherwise the project list whose JSON text is stored. \<^verbatim>\<open>JSON.stringify\<close> followed by
  \<^verbatim>\<open>JSON.parse\<close> is taken as the identity on project lists, and \<^verbatim>\<open>setItem\<close> as succeeding.
  The flag \<open>window_defined\<close> is \<^verbatim>\<open>typeof window !== 'undefined'\<close>.
\<close>

type_synonym 's localStorage = "'s Project list option"

definition getAll :: "bool \<Rightarrow> 's localStorage \<Rightarrow> 's Project list" where
  "getAll window_defined ls =
     (if \<not> window_defined then []
      else (case ls of None \<Rightarrow> [] | Some projects \<Rightarrow> projects))"

definition getById :: "bool \<Rightarrow> 's localStorage \<Rightarrow> string \<Rightarrow> 's Project option" where
  "getById window_defined ls ident =
     (let projects = getAll window_defined ls in find (\<lambda>p. p_id p = ident) projects)"

text \<open>
  \<open>save\<close> reads the list, replaces or appends, and writes the list back. \<open>now\<close> is the
  string \<^verbatim>\<open>new Date().toISOString()\<close>. Without a window the name \<^verbatim>\<open>localStorage\<close> is
  unbound when \<^verbatim>\<open>setItem\<close> is reached.
\<close>

definition save_projects :: "string \<Rightarrow> 's Project \<Rightarrow> 's Project list \<Rightarrow> 's Project list" where
  "save_projects now proj projects =
     (let index = findIndex (\<lambda>p. p_id p = p_id proj) projects in
      if index \<ge> 0 then projects[nat index := proj\<lparr>p_updated_at := now\<rparr>]
      else projects @ [proj])"

definition save :: "bool \<Rightarrow> string \<Rightarrow> 's Project \<Rightarrow> 's localStorage \<Rightarrow> js_error + 's localStorage" where
  "save window_defined now proj ls =
     (let projects = save_projects now proj (getAll window_defined ls) in
      if \<not> window_defined then Inl ReferenceError else Inr (Some projects))"

definition delete :: "bool \<Rightarrow> string \<Rightarrow> 's localStorage \<Rightarrow> js_error + 's localStorage" where
  "delete window_defined ident ls =
     (let projects = filter (\<lambda>p. p_id p \<noteq> ident) (getAll window_defined ls) in
      if \<not> window_defined then Inl ReferenceError else Inr (Some projects))"

text \<open>
  \<open>create\<close> builds the project and saves it; \<open>now1\<close> and \<open>now2\<close> are the two readings of
  \<^verbatim>\<open>new Date().toISOString()\<close> in the object literal, \<open>now3\<close> the one inside \<open>save\<close>.
\<close>

definition create ::
  "bool \<Rightarrow> int \<Rightarrow> string \<Rightarrow> string \<Rightarrow> string \<Rightarrow> string \<Rightarrow> string \<Rightarrow> 's localStorage
     \<Rightarrow> js_error + ('s Project \<times> 's localStorage)" where
  "create window_defined ms rnd now1 now2 now3 name ls =
     (let proj = \<lparr>p_id = generateId ms rnd, p_name = name, p_requirements = [],
                  p_audience = Technical, p_nodes = [], p_connections = [], p_status = Draft,
                  p_created_at = now1, p_updated_at = now2, p_versions = []\<rparr>
      in (case save window_defined now3 proj ls of
            Inl e \<Rightarrow> Inl e
          | Inr ls' \<Rightarrow> Inr (proj, ls')))"

section \<open>createNodeFromTemplate (src/lib/utils.ts)\<close>

definition createNodeFromTemplate ::
  "int \<Rightarrow> string \<Rightarrow> 's ComponentTemplate \<Rightarrow> Point \<Rightarrow> 's SystemNode" where
  "createNodeFromTemplate ms rnd template position =
     \<lparr>n_id = generateId ms rnd,
      n_type = t_type template,
      n_name = t_name template,
      n_description = t_description template,
      n_position = position,
      n_specifications = t_defaultSpecs template,
      n_scaling = Some \<lparr>horizontal = Some True, vertical = Some False, auto_scaling = Some True,
                         scaling_details = Some ''Scales based on CPU/memory usage''\<rparr>,
      n_fault_tolerance = Some \<lparr>replication = Some True, backup = Some True, failover = Some True,
                                 fault_details = Some ''Multi-region deployment with automated failover''\<rparr>,
      n_connections = Some [],
      n_icon = Some (t_icon template),
      n_color = None\<rparr>"

text \<open>
  Objects held by reference: a heap maps an address to the properties of a specifications
  object. Writing a property through an address changes what every holder of that address
  reads.
\<close>

type_synonym ref = nat

type_synonym specs = "(string \<times> string) list"

type_synonym heap = "ref \<Rightarrow> specs option"

definition read_prop :: "heap \<Rightarrow> ref \<Rightarrow> string \<Rightarrow> string option" where
  "read_prop h r k = (case h r of None \<Rightarrow> None | Some ps \<Rightarrow> map_of ps k)"

definition write_prop :: "heap \<Rightarrow> ref \<Rightarrow> string \<Rightarrow> string \<Rightarrow> heap" where
  "write_prop h r k v =
     (case h r of None \<Rightarrow> h | Some ps \<Rightarrow> h(r := Some (AList.update k v ps)))"

section \<open>JavaScript values\<close>

text \<open>
  The agent response is an untyped value (\<^verbatim>\<open>any\<close>): a JSON tree, with \<open>JUndefined\<close> for
  the result of reading a missing property. An object is its list of properties, keys
  distinct. Strings are lists of 8-bit characters (code units below 256). A number of a
  JSON tree is a finite double and is held by its real value: the normalizer does no
  arithmetic on such numbers, it only compares them with 0.
\<close>

datatype jsval =
    JUndefined
  | JNull
  | JBool bool
  | JNum real
  | JStr string
  | JArr "jsval list"
  | JObj "(string \<times> jsval) list"

fun truthy :: "jsval \<Rightarrow> bool" where
  "truthy JUndefined = False"
| "truthy JNull = False"
| "truthy (JBool b) = b"
| "truthy (JNum r) = (r \<noteq> 0)"
| "truthy (JStr s) = (s \<noteq> [])"
| "truthy (JArr vs) = True"
| "truthy (JObj kvs) = True"

definition nullish :: "jsval \<Rightarrow> bool" where
  "nullish v = (v = JUndefined \<or> v = JNull)"

text \<open>
  Reading the property \<open>k\<close> of a value that is neither null nor undefined, for the
  identifiers the source reads (\<^verbatim>\<open>result\<close>, \<^verbatim>\<open>data\<close>, \<^verbatim>\<open>response\<close>, \<^verbatim>\<open>status\<close>, \<^verbatim>\<open>nodes\<close>,
  \<^verbatim>\<open>connections\<close>, \<^verbatim>\<open>id\<close>, \<^verbatim>\<open>length\<close>): arrays and strings have \<^verbatim>\<open>length\<close>, numbers and
  booleans have none of them.
\<close>

fun property :: "string \<Rightarrow> jsval \<Rightarrow> jsval" where
  "property k (JObj kvs) = (case map_of kvs k of None \<Rightarrow> JUndefined | Some v \<Rightarrow> v)"
| "property k (JArr vs) = (if k = ''length'' then JNum (real (length vs)) else JUndefined)"
| "property k (JStr s) = (if k = ''length'' then JNum (real (length s)) else JUndefined)"
| "property k v = JUndefined"

text \<open>\<^verbatim>\<open>v.k\<close> throws on null and undefined; \<^verbatim>\<open>v?.k\<close> yields undefined there.\<close>

definition get :: "jsval \<Rightarrow> string \<Rightarrow> js_error + jsval" where
  "get v k = (if nullish v then Inl TypeError else Inr (property k v))"

definition opt_get :: "jsval \<Rightarrow> string \<Rightarrow> jsval" where
  "opt_get v k = (if nullish v then JUndefined else property k v)"

text \<open>\<^verbatim>\<open>v?.[i]\<close> for a literal index \<open>i\<close>.\<close>

fun index :: "nat \<Rightarrow> jsval \<Rightarrow> jsval" where
  "index i (JArr vs) = (if i < length vs then vs ! i else JUndefined)"
| "index i (JStr s) = (if i < length s then JStr [s ! i] else JUndefined)"
| "index i (JObj kvs) = property (digits10 i) (JObj kvs)"
| "index i v = JUndefined"

definition opt_index :: "jsval \<Rightarrow> nat \<Rightarrow> jsval" where
  "opt_index v i = (if nullish v then JUndefined else index i v)"

text \<open>\<^verbatim>\<open>a || b\<close>.\<close>

definition or_else :: "jsval \<Rightarrow> jsval \<Rightarrow> jsval" where
  "or_else a b = (if truthy a then a else b)"

text \<open>Assignment \<^verbatim>\<open>o.k = v\<close> to a property of an object.\<close>

fun set_prop :: "jsval \<Rightarrow> string \<Rightarrow> jsval \<Rightarrow> jsval" where
  "set_prop (JObj kvs) k v = JObj (AList.update k v kvs)"
| "set_prop w k v = w"

text \<open>\<^verbatim>\<open>a[i]\<close> on an array held as a list: undefined out of range.\<close>

definition at_index :: "jsval list \<Rightarrow> nat \<Rightarrow> jsval" where
  "at_index vs i = (if i < length vs then vs ! i else JUndefined)"

section \<open>String built-ins\<close>

text \<open>The class \<^verbatim>\<open>\s\<close> on 8-bit characters: tab, line feed, vertical tab, form feed,
  carriage return, space, no-break space.\<close>

definition is_space :: "char \<Rightarrow> bool" where
  "is_space c = (of_char c \<in> {9, 10, 11, 12, 13, 32, 160 :: nat})"

definition trim :: "string \<Rightarrow> string" where
  "trim s = rev (dropWhile is_space (rev (dropWhile is_space s)))"

definition indexOf :: "string \<Rightarrow> char \<Rightarrow> int" where
  "indexOf s c = findIndex (\<lambda>d. d = c) s"

definition lastIndexOf :: "string \<Rightarrow> char \<Rightarrow> int" where
  "lastIndexOf s c =
     (let i = findIndex (\<lambda>d. d = c) (rev s) in if i < 0 then -1 else int (length s) - 1 - i)"

text \<open>\<^verbatim>\<open>substring(a, b)\<close>: both arguments are clamped to the string, and swapped when
  \<open>a > b\<close>.\<close>

definition substring :: "string \<Rightarrow> int \<Rightarrow> int \<Rightarrow> string" where
  "substring s a b =
     (let n = int (length s);
          a' = max 0 (min a n);
          b' = max 0 (min b n);
          lo = min a' b';
          hi = max a' b'
      in take (nat (hi - lo)) (drop (nat lo) s))"

text \<open>
  \<^verbatim>\<open>responseText.match(/```json\s*([\s\S]*?)\s*```/)\<close>, reduced to its first group:
  \<open>closes\<close> says that the text starts with \<^verbatim>\<open>\s*```\<close>; \<open>lazy_capture\<close> is the shortest
  prefix after which the text closes; \<open>fence_match\<close> looks for the first \<^verbatim>\<open>```json\<close>,
  skips the white space after it and captures. The result is \<open>None\<close> when \<^verbatim>\<open>match\<close>
  returns null.
\<close>

definition closes :: "string \<Rightarrow> bool" where
  "closes s = (take 3 (dropWhile is_space s) = ''```'')"

fun lazy_capture :: "string \<Rightarrow> string option" where
  "lazy_capture [] = None"
| "lazy_capture (c # cs) =
     (if closes (c # cs) then Some [] else map_option ((#) c) (lazy_capture cs))"

fun fence_match :: "string \<Rightarrow> string option" where
  "fence_match [] = None"
| "fence_match (c # cs) =
     (if take 7 (c # cs) = ''```json'' then lazy_capture (dropWhile is_space (drop 7 (c # cs)))
      else fence_match cs)"

section \<open>parseAgentResponse (src/lib/utils.ts)\<close>


section \<open>parseAgentResponse (src/unnamed/part_000)\<close>

text \<open>
  \<^verbatim>\<open>JSON.parse\<close> is the argument \<open>JSON_parse\<close>: \<open>Inl\<close> when it throws. The calls of
  \<open>generateId\<close> during one run are numbered from 0 in evaluation order; \<open>draws k\<close> is what
  call \<open>k\<close> reads (\<^verbatim>\<open>Date.now()\<close> and the random suffix).
\<close>

definition generateId_at :: "(nat \<Rightarrow> int \<times> string) \<Rightarrow> nat \<Rightarrow> string" where
  "generateId_at draws k = generateId (fst (draws k)) (snd (draws k))"

text \<open>
  The body of the \<^verbatim>\<open>try\<close> block: the value it assigns to \<^verbatim>\<open>data\<close> (\<open>None\<close> when it
  assigns nothing), or the exception it throws. A text that is not a string has no
  callable \<^verbatim>\<open>match\<close>.
\<close>

definition try_extract :: "(string \<Rightarrow> js_error + jsval) \<Rightarrow> jsval \<Rightarrow> js_error + jsval option" where
  "try_extract JSON_parse responseText =
     (case responseText of
        JStr s \<Rightarrow>
          (case fence_match s of
             Some captured \<Rightarrow> map_sum id Some (JSON_parse captured)
           | None \<Rightarrow>
               (let jsonStart = indexOf s CHR ''{'';
                    jsonEnd = lastIndexOf s CHR ''}''
                in if jsonStart \<noteq> -1 \<and> jsonEnd \<noteq> -1
                   then map_sum id Some (JSON_parse (substring s jsonStart (jsonEnd + 1)))
                   else Inr None))
      | _ \<Rightarrow> Inl TypeError)"

definition scaling_object :: "bool \<Rightarrow> bool \<Rightarrow> bool \<Rightarrow> string \<Rightarrow> jsval" where
  "scaling_object h v a d =
     JObj [(''horizontal'', JBool h), (''vertical'', JBool v), (''auto_scaling'', JBool a),
           (''details'', JStr d)]"

definition fault_tolerance_object :: "string \<Rightarrow> jsval" where
  "fault_tolerance_object d =
     JObj [(''replication'', JBool True), (''backup'', JBool True), (''failover'', JBool True),
           (''details'', JStr d)]"

definition specifications_object :: "string \<Rightarrow> string \<Rightarrow> string \<Rightarrow> jsval" where
  "specifications_object t c l =
     JObj [(''technology'', JStr t), (''capacity'', JStr c), (''latency'', JStr l)]"

definition position_object :: "real \<Rightarrow> real \<Rightarrow> jsval" where
  "position_object a b = JObj [(''x'', JNum a), (''y'', JNum b)]"

definition fallback_nodes :: "(nat \<Rightarrow> int \<times> string) \<Rightarrow> jsval list" where
  "fallback_nodes draws =
     [JObj [(''id'', JStr (generateId_at draws 0)),
            (''type'', JStr ''api-gateway''),
            (''name'', JStr ''API Gateway''),
            (''description'', JStr ''Entry point for all client requests''),
            (''position'', position_object 100 100),
            (''specifications'', specifications_object ''NGINX / Kong'' ''10K requests/sec'' ''<50ms''),
            (''scaling'', scaling_object True False True ''Auto-scales based on request volume''),
            (''fault_tolerance'', fault_tolerance_object ''Multi-region deployment with health checks''),
            (''connections'', JArr []),
            (''icon'', JStr ''FaServer'')],
      JObj [(''id'', JStr (generateId_at draws 1)),
            (''type'', JStr ''service''),
            (''name'', JStr ''Application Service''),
            (''description'', JStr ''Core business logic processing''),
            (''position'', position_object 500 100),
            (''specifications'',
               specifications_object ''Node.js / Python'' ''Auto-scaling 10-100 instances'' ''<100ms''),
            (''scaling'', scaling_object True False True ''Kubernetes HPA based on CPU/memory''),
            (''fault_tolerance'', fault_tolerance_object ''Circuit breaker pattern with fallback''),
            (''connections'', JArr []),
            (''icon'', JStr ''FaCube'')],
      JObj [(''id'', JStr (generateId_at draws 2)),
            (''type'', JStr ''database''),
            (''name'', JStr ''Primary Database''),
            (''description'', JStr ''Persistent data storage''),
            (''position'', position_object 500 400),
            (''specifications'', specifications_object ''PostgreSQL'' ''1TB storage'' ''<10ms reads''),
            (''scaling'', scaling_object False True False ''Vertical scaling with read replicas''),
            (''fault_tolerance'', fault_tolerance_object ''Multi-AZ deployment with automated backups''),
            (''connections'', JArr []),
            (''icon'', JStr ''FaDatabase'')],
      JObj [(''id'', JStr (generateId_at draws 3)),
            (''type'', JStr ''cache''),
            (''name'', JStr ''Cache Layer''),
            (''description'', JStr ''In-memory caching for performance''),
            (''position'', position_object 900 250),
            (''specifications'', specifications_object ''Redis'' ''100GB memory'' ''<1ms''),
            (''scaling'', scaling_object True True True ''Redis cluster with automatic sharding''),
            (''fault_tolerance'', fault_tolerance_object ''Redis Sentinel for high availability''),
            (''connections'', JArr []),
            (''icon'', JStr ''FaBolt'')]]"

definition connection_object :: "string \<Rightarrow> jsval \<Rightarrow> jsval \<Rightarrow> string \<Rightarrow> string \<Rightarrow> jsval" where
  "connection_object i src tgt lbl proto =
     JObj [(''id'', JStr i), (''source'', src), (''target'', tgt), (''type'', JStr ''sync''),
           (''label'', JStr lbl), (''protocol'', JStr proto)]"

text \<open>
  The \<^verbatim>\<open>connections\<close> of the object literal: \<^verbatim>\<open>data\<close> there is still the value from
  before the assignment, read as \<^verbatim>\<open>data.nodes?.[i]?.id || ''\<close>.
\<close>

definition old_node_id :: "jsval \<Rightarrow> nat \<Rightarrow> jsval" where
  "old_node_id data i = or_else (opt_get (opt_index (property ''nodes'' data) i) ''id'') (JStr [])"

definition literal_connections :: "(nat \<Rightarrow> int \<times> string) \<Rightarrow> jsval \<Rightarrow> jsval list" where
  "literal_connections draws data =
     [connection_object (generateId_at draws 4) (old_node_id data 0) (old_node_id data 1)
        ''HTTP/REST'' ''HTTPS'',
      connection_object (generateId_at draws 5) (old_node_id data 1) (old_node_id data 2)
        ''Database queries'' ''PostgreSQL'',
      connection_object (generateId_at draws 6) (old_node_id data 1) (old_node_id data 3)
        ''Cache access'' ''Redis'']"

text \<open>The connections assigned under "Fix connection IDs to reference the actual nodes".\<close>

definition fixed_connections :: "(nat \<Rightarrow> int \<times> string) \<Rightarrow> jsval list \<Rightarrow> jsval list" where
  "fixed_connections draws nodeIds =
     [connection_object (generateId_at draws 7) (at_index nodeIds 0) (at_index nodeIds 1)
        ''HTTP/REST'' ''HTTPS'',
      connection_object (generateId_at draws 8) (at_index nodeIds 1) (at_index nodeIds 2)
        ''Database queries'' ''PostgreSQL'',
      connection_object (generateId_at draws 9) (at_index nodeIds 1) (at_index nodeIds 3)
        ''Cache access'' ''Redis'']"

text \<open>The branch taken when no nodes were found: the new value of \<^verbatim>\<open>data\<close>.\<close>

definition default_architecture :: "(nat \<Rightarrow> int \<times> string) \<Rightarrow> jsval \<Rightarrow> jsval" where
  "default_architecture draws data =
     (let data' = JObj [(''nodes'', JArr (fallback_nodes draws)),
                        (''connections'', JArr (literal_connections draws data))];
          nodeIds = (case property ''nodes'' data' of
                       JArr ns \<Rightarrow> map (property ''id'') ns
                     | _ \<Rightarrow> [])
      in set_prop data' ''connections'' (JArr (fixed_connections draws nodeIds)))"

definition parseAgentResponse ::
  "(string \<Rightarrow> js_error + jsval) \<Rightarrow> (nat \<Rightarrow> int \<times> string) \<Rightarrow> jsval \<Rightarrow> js_error + (jsval \<times> jsval)" where
  "parseAgentResponse JSON_parse draws response =
     (let data1 = (if truthy (opt_get (opt_get response ''result'') ''data'')
                   then property ''data'' (property ''result'' response)
                   else JObj [])
      in case get data1 ''nodes'' of
           Inl e \<Rightarrow> Inl e
         | Inr nodes1 \<Rightarrow>
             (let data2 =
                (if \<not> truthy nodes1 \<and> truthy (opt_get (opt_get response ''result'') ''response'')
                 then (case try_extract JSON_parse (property ''response'' (property ''result'' response)) of
                         Inl e \<Rightarrow> data1
                       | Inr None \<Rightarrow> data1
                       | Inr (Some d) \<Rightarrow> d)
                 else data1)
              in case get data2 ''nodes'' of
                   Inl e \<Rightarrow> Inl e
                 | Inr nodes2 \<Rightarrow>
                     (let data3 = (if \<not> truthy nodes2 \<or> property ''length'' nodes2 = JNum 0
                                   then default_architecture draws data2
                                   else data2)
                      in Inr (or_else (property ''nodes'' data3) (JArr []),
                              or_else (property ''connections'' data3) (JArr [])))))"

section \<open>CanvasUtils.fitToView (src/lib/utils.ts)\<close>

text \<open>
  The local constants of \<open>fitToView\<close> are functions of its arguments; the arithmetic is
  that of doubles, in the order in which the source writes it.
\<close>

definition minX :: "'s SystemNode list \<Rightarrow> double \<Rightarrow> double" where
  "minX nodes padding = fsub (math_min (map (\<lambda>n. px (n_position n)) nodes)) padding"

definition maxX :: "'s SystemNode list \<Rightarrow> double \<Rightarrow> double" where
  "maxX nodes padding =
     fadd (fadd (math_max (map (\<lambda>n. px (n_position n)) nodes)) padding) (dbl 300)"

definition minY :: "'s SystemNode list \<Rightarrow> double \<Rightarrow> double" where
  "minY nodes padding = fsub (math_min (map (\<lambda>n. py (n_position n)) nodes)) padding"

definition maxY :: "'s SystemNode list \<Rightarrow> double \<Rightarrow> double" where
  "maxY nodes padding =
     fadd (fadd (math_max (map (\<lambda>n. py (n_position n)) nodes)) padding) (dbl 150)"

definition contentWidth :: "'s SystemNode list \<Rightarrow> double \<Rightarrow> double" where
  "contentWidth nodes padding = fsub (maxX nodes padding) (minX nodes padding)"

definition contentHeight :: "'s SystemNode list \<Rightarrow> double \<Rightarrow> double" where
  "contentHeight nodes padding = fsub (maxY nodes padding) (minY nodes padding)"

definition zoomX :: "'s SystemNode list \<Rightarrow> double \<Rightarrow> double \<Rightarrow> double" where
  "zoomX nodes containerWidth padding = fdiv containerWidth (contentWidth nodes padding)"

definition zoomY :: "'s SystemNode list \<Rightarrow> double \<Rightarrow> double \<Rightarrow> double" where
  "zoomY nodes containerHeight padding = fdiv containerHeight (contentHeight nodes padding)"

record View =
  view_zoom :: double
  view_pan :: Point

definition fitToView :: "'s SystemNode list \<Rightarrow> double \<Rightarrow> double \<Rightarrow> double \<Rightarrow> View" where
  "fitToView nodes containerWidth containerHeight padding =
     (if length nodes = 0 then \<lparr>view_zoom = dbl 1, view_pan = \<lparr>px = dbl 0, py = dbl 0\<rparr>\<rparr>
      else
        (let zoom = math_min [zoomX nodes containerWidth padding,
                              zoomY nodes containerHeight padding, dbl 1];
             pan = \<lparr>px = fsub (fdiv (fsub containerWidth
                                         (fmul (contentWidth nodes padding) zoom)) (dbl 2))
                               (fmul (minX nodes padding) zoom),
                    py = fsub (fdiv (fsub containerHeight
                                         (fmul (contentHeight nodes padding) zoom)) (dbl 2))
                               (fmul (minY nodes padding) zoom)\<rparr>
         in \<lparr>view_zoom = zoom, view_pan = pan\<rparr>))"

text \<open>The call with three arguments: \<^verbatim>\<open>padding\<close> takes its default.\<close>

definition fitToView_default :: "'s SystemNode list \<Rightarrow> double \<Rightarrow> double \<Rightarrow> View" where
  "fitToView_default nodes containerWidth containerHeight =
     fitToView nodes containerWidth containerHeight (dbl 50)"

section \<open>The design canvas (src/app/project/[id]/page.tsx)\<close>

text \<open>
  The React state of \<open>DesignCanvas\<close> that the handlers below read and write, together
  with the content of localStorage. A handler is a function from the state before the
  event to the state after it; the page is a client component, so its handlers run with
  \<^verbatim>\<open>window\<close> defined.
\<close>

record CanvasState =
  cs_zoom :: double
  cs_pan :: Point
  cs_selectedNodeId :: "string option"
  cs_isDragging :: bool
  cs_showGrid :: bool
  cs_showMinimap :: bool

record 's PageState =
  st_project :: "'s Project option"
  st_projectName :: string
  st_requirements :: string
  st_audience :: Audience
  st_canvasState :: CanvasState
  st_rightPanelOpen :: bool
  st_isGenerating :: bool
  st_generationError :: "string option"
  st_storage :: "'s localStorage"

text \<open>
  \<open>deleteSelectedNode\<close>. \<^verbatim>\<open>!canvasState.selectedNodeId\<close> holds for null and for the empty
  string. \<open>now\<close> is the time string read inside \<open>save\<close>.
\<close>

definition deleteSelectedNode :: "string \<Rightarrow> 's PageState \<Rightarrow> js_error + 's PageState" where
  "deleteSelectedNode now st =
     (case cs_selectedNodeId (st_canvasState st) of
        None \<Rightarrow> Inr st
      | Some selectedNodeId \<Rightarrow>
          if selectedNodeId = [] then Inr st
          else
            (case st_project st of
               None \<Rightarrow> Inr st
             | Some proj \<Rightarrow>
                 (let updatedProject = proj
                        \<lparr>p_nodes := filter (\<lambda>n. n_id n \<noteq> selectedNodeId) (p_nodes proj),
                         p_connections :=
                           filter (\<lambda>c. c_source c \<noteq> selectedNodeId \<and> c_target c \<noteq> selectedNodeId)
                             (p_connections proj)\<rparr>
                  in (case save True now updatedProject (st_storage st) of
                        Inl e \<Rightarrow> Inl e
                      | Inr ls \<Rightarrow>
                          Inr (st\<lparr>st_project := Some updatedProject,
                                  st_storage := ls,
                                  st_rightPanelOpen := False,
                                  st_canvasState :=
                                    (st_canvasState st)\<lparr>cs_selectedNodeId := None\<rparr>\<rparr>)))))"

text \<open>
  \<open>handleGenerateDesign\<close> is asynchronous: \<open>handleGenerateDesign_start\<close> is the part up to
  the \<^verbatim>\<open>await\<close>, \<open>handleGenerateDesign_resume\<close> the part after it. The first returns, when
  the agent is called, the message sent and the value of \<^verbatim>\<open>project\<close> that the closure
  holds; the second receives that value and the outcome of the call.
\<close>

fun audience_text :: "Audience \<Rightarrow> string" where
  "audience_text Technical = ''technical''"
| "audience_text Executive = ''executive''"
| "audience_text Adaptive = ''adaptive''"

definition generation_message :: "string \<Rightarrow> Audience \<Rightarrow> string" where
  "generation_message requirements audience =
     ''Generate a system design architecture for the following requirements.''
     @ [CHR 0x0A, CHR 0x0A] @ ''Requirements: '' @ requirements
     @ [CHR 0x0A, CHR 0x0A] @ ''Audience: '' @ audience_text audience
     @ [CHR 0x0A, CHR 0x0A]
     @ ''Please provide a comprehensive system design with components (nodes) and their connections. Include specifications, scaling strategies, and fault tolerance measures appropriate for a ''
     @ audience_text audience @ '' audience.''"

definition handleGenerateDesign_start ::
  "'s PageState \<Rightarrow> 's PageState \<times> (string \<times> 's Project option) option" where
  "handleGenerateDesign_start st =
     (if trim (st_requirements st) = []
      then (st\<lparr>st_generationError := Some ''Please enter system requirements first''\<rparr>, None)
      else (st\<lparr>st_isGenerating := True, st_generationError := None\<rparr>,
            Some (generation_message (st_requirements st) (st_audience st), st_project st)))"

text \<open>
  The value the promise of \<^verbatim>\<open>callAIAgent\<close> settles to (the function is not part of the
  sources): rejected, or resolved to an object of which the handler reads \<^verbatim>\<open>success\<close>,
  \<^verbatim>\<open>response\<close> and \<^verbatim>\<open>error\<close>.
\<close>

record AgentResult =
  r_success :: bool
  r_response :: jsval
  r_error :: "string option"

datatype AgentOutcome = Rejected | Resolved AgentResult

text \<open>
  \<open>parse\<close> is \<^verbatim>\<open>parseAgentResponse\<close> as the page sees it through its declared type, a pair
  of typed arrays, or the exception it throws. The result is \<open>None\<close> when the closure
  holds no project: the page mounts the handler only after the project is loaded, and the
  source asserts it with \<^verbatim>\<open>project!\<close>.
\<close>

definition generation_failed :: "'s PageState \<Rightarrow> 's PageState" where
  "generation_failed st =
     st\<lparr>st_generationError := Some ''An error occurred while generating the design.''\<rparr>"

definition generation_rejected :: "AgentResult \<Rightarrow> 's PageState \<Rightarrow> 's PageState" where
  "generation_rejected result st =
     st\<lparr>st_generationError :=
          Some (case r_error result of
                  None \<Rightarrow> ''Failed to generate design. Please try again.''
                | Some msg \<Rightarrow>
                    if msg = [] then ''Failed to generate design. Please try again.'' else msg)\<rparr>"

definition handleGenerateDesign_try ::
  "(jsval \<Rightarrow> js_error + ('s SystemNode list \<times> NodeConnection list)) \<Rightarrow> string
     \<Rightarrow> 's Project option \<Rightarrow> AgentOutcome \<Rightarrow> 's PageState \<Rightarrow> 's PageState option" where
  "handleGenerateDesign_try parse now captured outcome st =
     (case outcome of
        Rejected \<Rightarrow> Some (generation_failed st)
      | Resolved result \<Rightarrow>
          if \<not> r_success result then Some (generation_rejected result st)
          else
            (case get (r_response result) ''status'' of
               Inl e \<Rightarrow> Some (generation_failed st)
             | Inr status \<Rightarrow>
                 if status \<noteq> JStr ''success'' then Some (generation_rejected result st)
                 else
                   (case parse (r_response result) of
                      Inl e \<Rightarrow> Some (generation_failed st)
                    | Inr (nodes, connections) \<Rightarrow>
                        if length nodes > 0 then
                          (case captured of
                             None \<Rightarrow> None
                           | Some proj \<Rightarrow>
                               (let updatedProject =
                                      proj\<lparr>p_nodes := nodes, p_connections := connections,
                                           p_status := Completed\<rparr>;
                                    st1 = st\<lparr>st_project := Some updatedProject\<rparr>
                                in (case save True now updatedProject (st_storage st) of
                                      Inl e \<Rightarrow> Some (generation_failed st1)
                                    | Inr ls \<Rightarrow> Some (st1\<lparr>st_storage := ls\<rparr>))))
                        else
                          Some (st\<lparr>st_generationError := Some
                            ''Agent response received but no architecture components were generated. Please try refining your requirements.''\<rparr>))))"

definition handleGenerateDesign_resume ::
  "(jsval \<Rightarrow> js_error + ('s SystemNode list \<times> NodeConnection list)) \<Rightarrow> string
     \<Rightarrow> 's Project option \<Rightarrow> AgentOutcome \<Rightarrow> 's PageState \<Rightarrow> 's PageState option" where
  "handleGenerateDesign_resume parse now captured outcome st =
     map_option (\<lambda>st'. st'\<lparr>st_isGenerating := False\<rparr>)
       (handleGenerateDesign_try parse now captured outcome st)"

section \<open>Example data\<close>

text \<open>Concrete values at which the theorems below are instantiated.\<close>

definition example_node :: "string \<Rightarrow> int \<Rightarrow> int \<Rightarrow> unit SystemNode" where
  "example_node ident a b =
     \<lparr>n_id = ident, n_type = Service, n_name = ''Node'', n_description = [],
      n_position = \<lparr>px = dbl a, py = dbl b\<rparr>, n_specifications = (), n_scaling = None,
      n_fault_tolerance = None, n_connections = None, n_icon = None, n_color = None\<rparr>"

definition example_connection :: "string \<Rightarrow> string \<Rightarrow> string \<Rightarrow> NodeConnection" where
  "example_connection ident src tgt =
     \<lparr>c_id = ident, c_source = src, c_target = tgt, c_type = Sync, c_label = None,
      c_description = None, c_protocol = None\<rparr>"

definition example_project :: "string \<Rightarrow> unit Project" where
  "example_project ident =
     \<lparr>p_id = ident, p_name = ''Shop'', p_requirements = ''An online shop'',
      p_audience = Technical,
      p_nodes = [example_node ''a'' 0 0, example_node ''b'' 400 0, example_node ''c'' 400 300],
      p_connections = [example_connection ''e1'' ''a'' ''b'', example_connection ''e2'' ''b'' ''c'',
                       example_connection ''e3'' ''c'' ''a''],
      p_status = Draft, p_created_at = ''2024-01-01T00:00:00.000Z'',
      p_updated_at = ''2024-01-02T00:00:00.000Z'', p_versions = []\<rparr>"

text \<open>A project in which one node carries the empty string as its id.\<close>

definition unnamed_project :: "unit Project" where
  "unnamed_project =
     (example_project ''p1'')
       \<lparr>p_nodes := [example_node [] 0 0, example_node ''b'' 400 0],
        p_connections := [example_connection ''e1'' [] ''b'']\<rparr>"

definition example_state :: "unit Project \<Rightarrow> string option \<Rightarrow> unit PageState" where
  "example_state proj sel =
     \<lparr>st_project = Some proj, st_projectName = p_name proj,
      st_requirements = p_requirements proj, st_audience = p_audience proj,
      st_canvasState = \<lparr>cs_zoom = dbl 1, cs_pan = \<lparr>px = dbl 0, py = dbl 0\<rparr>,
                         cs_selectedNodeId = sel,
                         cs_isDragging = False, cs_showGrid = True, cs_showMinimap = False\<rparr>,
      st_rightPanelOpen = True, st_isGenerating = False, st_generationError = None,
      st_storage = Some [proj]\<rparr>"

text \<open>A heap holding the default specifications of the API gateway template at address 0.\<close>

definition example_heap :: heap where
  "example_heap =
     (\<lambda>r. if r = 0
          then Some [(''technology'', ''NGINX / Kong''), (''capacity'', ''10K requests/sec''),
                     (''latency'', ''<50ms'')]
          else None)"

definition example_template :: "ref option ComponentTemplate" where
  "example_template =
     \<lparr>t_id = ''api-gateway'', t_type = ApiGateway, t_name = ''API Gateway'',
      t_description = ''Entry point for client requests with routing and load balancing'',
      t_icon = ''FaServer'', t_defaultSpecs = Some 0\<rparr>"

text \<open>An agent call that succeeds, and a normalizer that returns one node for it.\<close>

definition example_parse :: "jsval \<Rightarrow> js_error + (unit SystemNode list \<times> NodeConnection list)" where
  "example_parse response = Inr ([example_node ''n1'' 100 100], [])"

definition example_result :: AgentResult where
  "example_result =
     \<lparr>r_success = True, r_response = JObj [(''status'', JStr ''success'')], r_error = None\<rparr>"

text \<open>
  Readings of the clock and of the random source for successive calls of generateId, and
  \<^verbatim>\<open>JSON.parse\<close> on the strings the examples pass to it: the one JSON text is parsed, and
  every other string (the examples ask only for \<^verbatim>\<open>oops\<close>) is a syntax error.
\<close>

definition example_draws :: "nat \<Rightarrow> int \<times> string" where
  "example_draws k = (1700000000000 + int k, ''k3j9x2m1q'')"

definition JSON_parse_sample :: "string \<Rightarrow> js_error + jsval" where
  \<open>JSON_parse_sample s =
     (if s = ''{"nodes":[{"id":"n1"}]}''
      then Inr (JObj [(''nodes'', JArr [JObj [(''id'', JStr ''n1'')]])])
      else Inl SyntaxError)\<close>

text \<open>A reply whose fenced block is not JSON, followed by a JSON object with one node.\<close>

definition fenced_reply :: string where
  \<open>fenced_reply = ''```json oops ``` {"nodes":[{"id":"n1"}]}''\<close>

definition reply_with_text :: "string \<Rightarrow> jsval" where
  "reply_with_text s = JObj [(''status'', JStr ''success''), (''result'', JObj [(''response'', JStr s)])]"


section \<open>Lemmas: doubles\<close>

subsection \<open>Evaluation on numerals\<close>

text \<open>The recursive equations of \<open>bitlength\<close> and \<open>canonical\<close>, for literal arguments.\<close>

lemma bitlength_eval:
  "bitlength 0 = 0"
  "bitlength (Suc 0) = 1"
  "bitlength (numeral w) = 1 + bitlength (numeral w div 2)"
  by (simp_all add: bitlength.simps [of 0] bitlength.simps [of "Suc 0"] bitlength.simps [of "numeral w"])

lemma canonical_eval:
  "canonical s 0 e = Finite s 0 0"
  "canonical s (Suc 0) e = Finite s (Suc 0) e"
  "canonical s (numeral w) e =
     (if even (numeral w :: nat) then canonical s (numeral w div 2) (e + 1)
      else Finite s (numeral w) e)"
  by (simp_all add: canonical.simps [of s 0] canonical.simps [of s "Suc 0"]
      canonical.simps [of s "numeral w"])

lemmas double_eval = bitlength_eval canonical_eval dbl_def round_double_def finish_def
  signed_def fsub_def Let_def

subsection \<open>Binary digits and powers of two\<close>

lemma bitlength_nonneg: "0 \<le> bitlength n"
  by (induction n rule: bitlength.induct) (subst bitlength.simps, simp)

lemma bitlength_pos: "0 < n \<Longrightarrow> 0 < bitlength n"
  using bitlength_nonneg [of "n div 2"] by (subst bitlength.simps) simp

lemma bitlength_zero_iff: "bitlength n = 0 \<longleftrightarrow> n = 0"
  using bitlength_pos [of n] by (cases "n = 0") (simp_all add: bitlength.simps [of 0])

lemma bitlength_half: "0 < n \<Longrightarrow> bitlength (n div 2) = bitlength n - 1"
  by (subst (2) bitlength.simps) simp

lemma bitlength_upper: "n < 2 ^ nat (bitlength n)"
proof (induction n rule: bitlength.induct)
  case (1 n)
  show ?case
  proof (cases "n = 0")
    case True
    then show ?thesis by simp
  next
    case False
    then have ih: "n div 2 < 2 ^ nat (bitlength (n div 2))" using 1 by simp
    have b: "bitlength n = 1 + bitlength (n div 2)" using False by (subst bitlength.simps) simp
    have "nat (bitlength n) = Suc (nat (bitlength (n div 2)))"
      using b bitlength_nonneg [of "n div 2"] by simp
    then show ?thesis using ih by simp
  qed
qed

lemma bitlength_lower: "0 < n \<Longrightarrow> 2 ^ nat (bitlength n - 1) \<le> n"
proof (induction n rule: bitlength.induct)
  case (1 n)
  show ?case
  proof (cases "n div 2 = 0")
    case True
    with 1(2) have "n = 1" by (simp add: div_eq_0_iff) 
    then show ?thesis by (simp add: bitlength_eval)
  next
    case False
    then have ih: "2 ^ nat (bitlength (n div 2) - 1) \<le> n div 2" using 1 by simp
    have p: "0 < bitlength (n div 2)" using False by (simp add: bitlength_pos)
    have b: "bitlength n - 1 = bitlength (n div 2)" using 1(2) by (simp add: bitlength_half)
    have "nat (bitlength (n div 2)) = Suc (nat (bitlength (n div 2) - 1))" using p by simp
    then have "(2::nat) ^ nat (bitlength (n div 2)) = 2 * 2 ^ nat (bitlength (n div 2) - 1)" by simp
    also have "\<dots> \<le> 2 * (n div 2)" using ih by simp
    also have "\<dots> \<le> n" by simp
    finally show ?thesis using b by simp
  qed
qed

lemma bitlength_le: "n < 2 ^ k \<Longrightarrow> bitlength n \<le> int k"
proof (cases "n = 0")
  case True
  then show ?thesis by (simp add: bitlength_eval)
next
  case False
  assume a: "n < 2 ^ k"
  have "(2::nat) ^ nat (bitlength n - 1) \<le> n" using bitlength_lower [of n] False by simp
  then have "(2::nat) ^ nat (bitlength n - 1) < 2 ^ k" using a by (rule le_less_trans)
  then have "nat (bitlength n - 1) < k" by (simp only: power_strict_increasing_iff [of 2] one_less_numeral_iff semiring_norm)
  then show ?thesis by simp
qed

lemma bitlength_gt: "2 ^ k \<le> n \<Longrightarrow> int k < bitlength n"
proof -
  assume "2 ^ k \<le> n"
  then have "(2::nat) ^ k < 2 ^ nat (bitlength n)" using bitlength_upper [of n] by (rule le_less_trans)
  then have "k < nat (bitlength n)" by (simp only: power_strict_increasing_iff [of 2] one_less_numeral_iff semiring_norm)
  then show ?thesis by simp
qed

text \<open>Powers of two with integer exponents.\<close>

lemma pw_pos: "0 < (2::real) powi a"
  by simp

lemma pw_add: "(2::real) powi (a + b) = 2 powi a * 2 powi b"
  by (simp add: power_int_add)

lemma pw_mono: "a \<le> b \<Longrightarrow> (2::real) powi a \<le> 2 powi b"
  by (rule power_int_increasing) simp_all

lemma pw_strict: "a < b \<Longrightarrow> (2::real) powi a < 2 powi b"
  by (rule power_int_strict_increasing) simp_all

lemma pw_nat: "0 \<le> a \<Longrightarrow> (2::real) powi a = 2 ^ nat a"
  by (simp add: power_int_nonneg_exp)

lemma real_bitlength_upper: "real n < 2 powi (bitlength n)"
proof -
  have "real n < real (2 ^ nat (bitlength n))"
    using bitlength_upper [of n] by (simp only: of_nat_less_iff)
  then show ?thesis by (simp add: pw_nat bitlength_nonneg)
qed

lemma real_bitlength_lower: "0 < n \<Longrightarrow> 2 powi (bitlength n - 1) \<le> real n"
proof -
  assume p: "0 < n"
  then have "real (2 ^ nat (bitlength n - 1)) \<le> real n"
    using bitlength_lower [of n] by (simp only: of_nat_le_iff)
  moreover have "0 \<le> bitlength n - 1" using bitlength_pos [OF p] by simp
  ultimately show ?thesis by (simp add: pw_nat)
qed

subsection \<open>Rounding\<close>

text \<open>The canonical form keeps the sign and the value.\<close>

lemma canonical_props:
  "\<exists>m' e'. canonical s m e = Finite s m' e' \<and>
      real m' * 2 powi e' = real m * 2 powi e \<and> m' \<le> m \<and> (m' = 0 \<or> odd m') \<and>
      (0 < m \<longrightarrow> e \<le> e' \<and> bitlength m' + e' = bitlength m + e) \<and>
      (m = 0 \<longrightarrow> e' = 0)"
proof (induction s m e rule: canonical.induct)
  case (1 s m e)
  show ?case
  proof (cases "m = 0")
    case True
    then show ?thesis by (subst canonical.simps) simp
  next
    case False
    show ?thesis
    proof (cases "even m")
      case odd: False
      then show ?thesis using False by (subst canonical.simps) simp
    next
      case True
      from 1 [OF False True] obtain m' e' where
        n: "canonical s (m div 2) (e + 1) = Finite s m' e'"
        and v: "real m' * 2 powi e' = real (m div 2) * 2 powi (e + 1)"
        and le: "m' \<le> m div 2" and od: "m' = 0 \<or> odd m'"
        and bl: "0 < m div 2 \<longrightarrow> e + 1 \<le> e' \<and> bitlength m' + e' = bitlength (m div 2) + (e + 1)"
        by auto
      have half: "0 < m div 2" using False True by (auto elim: evenE)
      have two: "real (m div 2) * 2 = real m" using True by (auto elim: evenE)
      have "real (m div 2) * 2 powi (e + 1) = real (m div 2) * 2 * 2 powi e"
        by (simp add: pw_add)
      then have v': "real m' * 2 powi e' = real m * 2 powi e" using v two by simp
      have b: "bitlength (m div 2) = bitlength m - 1" using False by (simp add: bitlength_half)
      have "canonical s m e = Finite s m' e'"
        using n False True by (subst canonical.simps) simp
      moreover have "m' \<le> m" using le by simp
      moreover have "e \<le> e' \<and> bitlength m' + e' = bitlength m + e" using bl half b by simp
      ultimately show ?thesis using v' od False by blast
    qed
  qed
qed

lemma finish_cases:
  "(finish s m e = Infinity s \<and> 1024 < bitlength m + e) \<or>
   (bitlength m + e \<le> 1024 \<and>
    (\<exists>m' e'. finish s m e = Finite s m' e' \<and>
       real m' * 2 powi e' = real m * 2 powi e \<and> m' \<le> m \<and> (m' = 0 \<or> odd m') \<and>
       (0 < m \<longrightarrow> e \<le> e' \<and> bitlength m' + e' = bitlength m + e) \<and> (m = 0 \<longrightarrow> e' = 0)))"
  using canonical_props [of s m e] by (auto simp: finish_def)

lemma is_double_finish:
  assumes "m \<le> 2 ^ 53" and "- 1074 \<le> e"
  shows "is_double (finish s m e)"
proof -
  from finish_cases [of s m e]
  consider (inf) "finish s m e = Infinity s"
    | (fin) m' e' where "bitlength m + e \<le> 1024" "finish s m e = Finite s m' e'"
        "m' \<le> m" "m' = 0 \<or> odd m'"
        "0 < m \<longrightarrow> e \<le> e' \<and> bitlength m' + e' = bitlength m + e" "m = 0 \<longrightarrow> e' = 0"
    by auto
  then show ?thesis
  proof cases
    case inf
    then show ?thesis by simp
  next
    case fin
    have "m' \<noteq> 2 ^ 53" using fin(4) by auto
    then have m: "m' < 2 ^ 53" using fin(3) assms(1) by simp
    show ?thesis
    proof (cases "m = 0")
      case True
      then have "m' = 0" "e' = 0" using fin by simp_all
      then show ?thesis using fin(2) by (simp add: bitlength_eval)
    next
      case False
      then show ?thesis using fin m assms(2) by simp
    qed
  qed
qed

text \<open>No double lies strictly between two neighbours of the rounding grid.\<close>

text \<open>
  No double lies strictly between two neighbours of the grid on which a number is rounded:
  a double above \<open>q * 2 ^ K\<close> is at least \<open>(q + 1) * 2 ^ K\<close>, when \<open>q\<close> has 53 binary digits
  or \<open>K\<close> is the least exponent.
\<close>

lemma gap:
  assumes m: "m < 2 ^ 53" and f: "- 1074 \<le> f" and K: "- 1074 \<le> K"
    and q: "2 ^ 52 \<le> q \<or> K = - 1074"
    and less: "real q * 2 powi K < real m * 2 powi f"
  shows "real (q + 1) * 2 powi K \<le> real m * 2 powi f"
proof (cases "K \<le> f")
  case True
  have "(2::real) powi f = 2 powi (f - K) * 2 powi K"
    using pw_add [of "f - K" K] by simp
  also have "(2::real) powi (f - K) = 2 ^ nat (f - K)" using True by (simp add: pw_nat)
  finally have e: "real m * 2 powi f = real (m * 2 ^ nat (f - K)) * 2 powi K" by simp
  from less have "real q < real (m * 2 ^ nat (f - K))"
    unfolding e using pw_pos [of K] by (simp only: mult_less_cancel_right_pos)
  then have "q < m * 2 ^ nat (f - K)" by (simp only: of_nat_less_iff)
  then have "q + 1 \<le> m * 2 ^ nat (f - K)" by simp
  then have "real (q + 1) \<le> real (m * 2 ^ nat (f - K))" by (simp only: of_nat_le_iff)
  then show ?thesis unfolding e using pw_pos [of K] by (simp only: mult_le_cancel_right_pos)
next
  case False
  then have q52: "2 ^ 52 \<le> q" using q f by auto
  have "real m * 2 powi f \<le> 2 ^ 53 * 2 powi f"
    using m pw_pos [of f] by (simp add: mult_right_mono)
  also have "\<dots> = 2 ^ 52 * 2 powi (f + 1)" by (simp add: pw_add)
  also have "\<dots> \<le> 2 ^ 52 * 2 powi K"
    using False pw_mono [of "f + 1" K] by simp
  also have "\<dots> \<le> real q * 2 powi K"
  proof -
    have "(2::real) ^ 52 \<le> real q" using q52 by (metis of_nat_le_iff of_nat_numeral of_nat_power)
    then show ?thesis using pw_pos [of K] by (simp add: mult_right_mono)
  qed
  finally show ?thesis using less by simp
qed

text \<open>What \<open>round_double\<close> does: nothing is dropped, or the magnitude lies between two
  neighbours of the grid and one of them is taken.\<close>

text \<open>
  The result of rounding: the number itself when it needs no rounding, else one of the two
  neighbours \<open>q * 2 ^ K\<close> and \<open>(q + 1) * 2 ^ K\<close> that enclose it.
\<close>

lemma round_double_cases:
  "(round_double s n sticky e = finish s n e \<and> n < 2 ^ 53 \<and> - 1074 \<le> e) \<or>
   (\<exists>q q' K. round_double s n sticky e = finish s q' K \<and> - 1074 \<le> K \<and> q < 2 ^ 53 \<and>
       (q' = q \<or> q' = q + 1 \<and> real q * 2 powi K < real n * 2 powi e) \<and>
       real q * 2 powi K \<le> real n * 2 powi e \<and>
       real n * 2 powi e < real (q + 1) * 2 powi K \<and>
       (2 ^ 52 \<le> q \<or> K = - 1074))"
proof -
  define k where "k = max (bitlength n - 53) (- 1074 - e)"
  show ?thesis
  proof (cases "k \<le> 0")
    case True
    then have "bitlength n \<le> 53" and e: "- 1074 \<le> e" by (simp_all add: k_def)
    then have "nat (bitlength n) \<le> 53" by simp
    then have "(2::nat) ^ nat (bitlength n) \<le> 2 ^ 53" by (rule power_increasing) simp
    with bitlength_upper [of n] have "n < 2 ^ 53" by (rule less_le_trans)
    moreover have "round_double s n sticky e = finish s n e"
      using True by (simp add: round_double_def k_def [symmetric])
    ultimately show ?thesis using e by blast
  next
    case False
    define d :: nat where "d = 2 ^ nat k"
    define q where "q = n div d"
    define r where "r = n mod d"
    define K where "K = e + k"
    define up where "up = (r > d div 2 \<or> (r = d div 2 \<and> (sticky \<or> odd q)))"
    define q' where "q' = (if up then q + 1 else q)"
    have kpos: "0 < k" using False by simp
    have dpos: "0 < d" by (simp add: d_def)
    have d2: "2 \<le> d"
    proof -
      have "nat k = Suc (nat k - 1)" using kpos by simp
      then have "d = 2 * 2 ^ (nat k - 1)" unfolding d_def by (metis power_Suc)
      then show ?thesis by simp
    qed
    have n: "n = q * d + r" by (simp add: q_def r_def)
    have rd: "r < d" using dpos by (simp add: r_def)
    have rr: "round_double s n sticky e = finish s q' K"
      using False
      by (simp add: round_double_def k_def [symmetric] Let_def d_def [symmetric]
          q_def [symmetric] r_def [symmetric] up_def [symmetric] q'_def K_def)
    have K: "- 1074 \<le> K" by (simp add: K_def k_def)
    have pk: "(2::real) powi K = real d * 2 powi e"
    proof -
      have "(2::real) powi K = 2 powi k * 2 powi e" using pw_add [of k e] by (simp add: K_def add.commute)
      moreover have "(2::real) powi k = real d" using kpos by (simp add: pw_nat d_def)
      ultimately show ?thesis by simp
    qed
    have val: "real n * 2 powi e = (real q * real d + real r) * 2 powi e"
      by (simp add: n)
    have lo: "real q * 2 powi K \<le> real n * 2 powi e"
      unfolding pk val using pw_pos [of e] by (simp add: mult_right_mono)
    have hi: "real n * 2 powi e < real (q + 1) * 2 powi K"
    proof -
      have "real q * real d + real r < real (q + 1) * real d"
        using rd by (simp add: algebra_simps)
      then have "(real q * real d + real r) * 2 powi e < real (q + 1) * real d * 2 powi e"
        using pw_pos [of e] by (simp only: mult_less_cancel_right_pos)
      then show ?thesis unfolding pk val by (simp add: mult.assoc)
    qed
    have q53: "q < 2 ^ 53"
    proof -
      have "bitlength n \<le> 53 + k" by (simp add: k_def)
      then have "nat (bitlength n) \<le> 53 + nat k" using kpos by simp
      then have "(2::nat) ^ nat (bitlength n) \<le> 2 ^ (53 + nat k)" by (rule power_increasing) simp
      with bitlength_upper [of n] have "n < 2 ^ (53 + nat k)" by (rule less_le_trans)
      then have "n < 2 ^ 53 * d" by (simp add: d_def power_add)
      then show ?thesis unfolding q_def using dpos by (simp add: less_mult_imp_div_less)
    qed
    have grid: "2 ^ 52 \<le> q \<or> K = - 1074"
    proof (cases "k = - 1074 - e")
      case True
      then show ?thesis by (simp add: K_def)
    next
      case f: False
      then have b: "bitlength n = 53 + k" by (simp add: k_def max_def split: if_splits)
      then have npos: "0 < n" using kpos bitlength_zero_iff [of n] by (cases "n = 0") simp_all
      have "nat (bitlength n - 1) = 52 + nat k" using b kpos by simp
      then have "2 ^ (52 + nat k) \<le> n" using bitlength_lower [OF npos] by simp
      then have "2 ^ 52 * d \<le> n" by (simp add: d_def power_add)
      then have "2 ^ 52 \<le> n div d" using dpos by (simp add: less_eq_div_iff_mult_less_eq)
      then show ?thesis by (simp add: q_def)
    qed
    have step: "q' = q \<or> q' = q + 1 \<and> real q * 2 powi K < real n * 2 powi e"
    proof (cases up)
      case False
      then show ?thesis by (simp add: q'_def)
    next
      case True
      then have "0 < r" using d2 by (auto simp: up_def)
      then have "real q * real d < real q * real d + real r" by simp
      then have "real q * real d * 2 powi e < (real q * real d + real r) * 2 powi e"
        using pw_pos [of e] by (simp only: mult_less_cancel_right_pos)
      then have "real q * 2 powi K < real n * 2 powi e" unfolding pk val by (simp add: mult.assoc)
      then show ?thesis using True by (simp add: q'_def)
    qed
    from rr K q53 step lo hi grid show ?thesis by blast
  qed
qed

lemma is_double_round: "is_double (round_double s n sticky e)"
proof -
  from round_double_cases [of s n sticky e]
  consider (exact) "round_double s n sticky e = finish s n e" "n < 2 ^ 53" "- 1074 \<le> e"
    | (rounded) q q' K where "round_double s n sticky e = finish s q' K" "- 1074 \<le> K"
        "q < 2 ^ 53" "q' = q \<or> q' = q + 1 \<and> real q * 2 powi K < real n * 2 powi e"
    by blast
  then show ?thesis
  proof cases
    case exact
    then show ?thesis by (simp add: is_double_finish)
  next
    case rounded
    then have "q' \<le> 2 ^ 53" by auto
    then show ?thesis using rounded by (simp add: is_double_finish)
  qed
qed

lemma below_overflow:
  assumes le: "real q * 2 powi K \<le> real m * 2 powi f"
    and m: "bitlength m + f \<le> 1024"
    and q: "0 < q \<or> K \<le> 1024"
  shows "bitlength q + K \<le> 1024"
proof (cases "q = 0")
  case True
  then show ?thesis using q by (simp add: bitlength_eval)
next
  case False
  then have "2 powi (bitlength q - 1) * 2 powi K \<le> real q * 2 powi K"
    using real_bitlength_lower [of q] pw_pos [of K] by (simp add: mult_right_mono)
  also note le
  also have "real m * 2 powi f < 2 powi (bitlength m) * 2 powi f"
    using real_bitlength_upper [of m] pw_pos [of f] by (simp only: mult_less_cancel_right_pos)
  also have "\<dots> = 2 powi (bitlength m + f)" by (simp add: pw_add)
  also have "\<dots> \<le> 2 powi 1024" using m by (rule pw_mono)
  finally have "(2::real) powi (bitlength q - 1 + K) < 2 powi 1024" by (simp add: pw_add)
  then have "bitlength q - 1 + K < 1024"
    using pw_mono [of 1024 "bitlength q - 1 + K"] by (cases "bitlength q - 1 + K < 1024") simp_all
  then show ?thesis by simp
qed

lemma finish_value:
  assumes "bitlength q + K \<le> 1024"
  shows "\<exists>m' e'. finish s q K = Finite s m' e' \<and> real m' * 2 powi e' = real q * 2 powi K"
  using finish_cases [of s q K] assms by auto

text \<open>Rounding is monotone: it does not cross a double above or below the number.\<close>

lemma round_double_upper:
  assumes n: "0 < n" and m: "m < 2 ^ 53" and f: "- 1074 \<le> f"
    and range: "bitlength m + f \<le> 1024"
    and le: "real n * 2 powi e \<le> real m * 2 powi f"
  shows "\<exists>m' e'. round_double s n sticky e = Finite s m' e' \<and>
           real m' * 2 powi e' \<le> real m * 2 powi f"
proof -
  from round_double_cases [of s n sticky e]
  consider (exact) "round_double s n sticky e = finish s n e"
    | (rounded) q q' K where "round_double s n sticky e = finish s q' K" "- 1074 \<le> K"
        "q' = q \<or> q' = q + 1 \<and> real q * 2 powi K < real n * 2 powi e"
        "real q * 2 powi K \<le> real n * 2 powi e" "2 ^ 52 \<le> q \<or> K = - 1074"
    by blast
  then show ?thesis
  proof cases
    case exact
    have "bitlength n + e \<le> 1024" using le range n by (rule below_overflow [OF _ _ disjI1])
    from finish_value [OF this, of s] exact le show ?thesis by auto
  next
    case rounded
    have b: "real q' * 2 powi K \<le> real m * 2 powi f"
    proof (cases "q' = q")
      case True
      then show ?thesis using rounded(4) le by simp
    next
      case False
      then have q': "q' = q + 1" and "real q * 2 powi K < real n * 2 powi e" using rounded(3) by auto
      then have "real q * 2 powi K < real m * 2 powi f" using le by simp
      from gap [OF m f rounded(2) rounded(5) this] show ?thesis using q' by simp
    qed
    have "0 < q' \<or> K \<le> 1024" using rounded(3,5) by auto
    with b range have "bitlength q' + K \<le> 1024" by (rule below_overflow)
    from finish_value [OF this, of s] rounded(1) b show ?thesis by auto
  qed
qed

lemma round_double_lower:
  assumes m: "m < 2 ^ 53" and f: "- 1074 \<le> f"
    and le: "real m * 2 powi f \<le> real n * 2 powi e"
  shows "round_double s n sticky e = Infinity s \<or>
         (\<exists>m' e'. round_double s n sticky e = Finite s m' e' \<and>
            real m * 2 powi f \<le> real m' * 2 powi e')"
proof -
  from round_double_cases [of s n sticky e]
  consider (exact) "round_double s n sticky e = finish s n e"
    | (rounded) q q' K where "round_double s n sticky e = finish s q' K" "- 1074 \<le> K"
        "q' = q \<or> q' = q + 1"
        "real n * 2 powi e < real (q + 1) * 2 powi K" "2 ^ 52 \<le> q \<or> K = - 1074"
    by blast
  then show ?thesis
  proof cases
    case exact
    then show ?thesis using finish_cases [of s n e] le by auto
  next
    case rounded
    have "real m * 2 powi f \<le> real q * 2 powi K"
    proof (rule ccontr)
      assume "\<not> real m * 2 powi f \<le> real q * 2 powi K"
      then have "real q * 2 powi K < real m * 2 powi f" by simp
      from gap [OF m f rounded(2) rounded(5) this] le rounded(4) show False by simp
    qed
    moreover have "real q * 2 powi K \<le> real q' * 2 powi K"
    proof (rule mult_right_mono)
      show "real q \<le> real q'" using rounded(3) by auto
      show "(0::real) \<le> 2 powi K" using pw_pos [of K] by simp
    qed
    ultimately have "real m * 2 powi f \<le> real q' * 2 powi K" by (rule order_trans)
    then show ?thesis using finish_cases [of s q' K] rounded(1) by auto
  qed
qed

text \<open>A number that is a double is not changed by rounding.\<close>

lemma round_double_exact:
  assumes n: "0 < n" and m: "m < 2 ^ 53" and f: "- 1074 \<le> f"
    and range: "bitlength m + f \<le> 1024"
    and eq: "real n * 2 powi e = real m * 2 powi f"
  shows "\<exists>m' e'. round_double s n sticky e = Finite s m' e' \<and>
           real m' * 2 powi e' = real m * 2 powi f"
proof -
  have le: "real n * 2 powi e \<le> real m * 2 powi f" and ge: "real m * 2 powi f \<le> real n * 2 powi e"
    using eq by simp_all
  from round_double_upper [OF n m f range le, of s sticky]
  obtain m' e' where r: "round_double s n sticky e = Finite s m' e'"
    and u: "real m' * 2 powi e' \<le> real m * 2 powi f" by blast
  from round_double_lower [OF m f ge, of s sticky] r
  have "real m * 2 powi f \<le> real m' * 2 powi e'" by auto
  with r u show ?thesis by auto
qed

lemma pw_half: "K < 0 \<Longrightarrow> (2::real) powi K \<le> 1 / 2"
  using pw_mono [of K "- 1"] by simp

text \<open>Below \<open>2 ^ 52\<close> the doubles are at most \<open>1 / 2\<close> apart.\<close>

lemma round_double_near:
  assumes n: "0 < n" and v: "real n * 2 powi e < 2 ^ 52"
  shows "\<exists>m' e'. round_double s n sticky e = Finite s m' e' \<and>
           \<bar>real m' * 2 powi e' - real n * 2 powi e\<bar> < 1 / 2"
proof -
  from round_double_cases [of s n sticky e]
  consider (exact) "round_double s n sticky e = finish s n e"
    | (rounded) q q' K where "round_double s n sticky e = finish s q' K" "- 1074 \<le> K"
        "q' = q \<or> q' = q + 1 \<and> real q * 2 powi K < real n * 2 powi e"
        "real q * 2 powi K \<le> real n * 2 powi e"
        "real n * 2 powi e < real (q + 1) * 2 powi K" "2 ^ 52 \<le> q \<or> K = - 1074"
    by blast
  then show ?thesis
  proof cases
    case exact
    have b: "bitlength (2 ^ 52) + 0 \<le> 1024" using bitlength_le [of "2 ^ 52" 53] by simp
    have "real n * 2 powi e \<le> real (2 ^ 52) * 2 powi 0" using v by simp
    from this b have "bitlength n + e \<le> 1024" using n by (rule below_overflow [OF _ _ disjI1])
    from finish_value [OF this, of s] exact show ?thesis by auto
  next
    case rounded
    have K: "K < 0"
    proof (cases "K = - 1074")
      case True
      then show ?thesis by simp
    next
      case False
      with rounded(6) have "(2::nat) ^ 52 \<le> q" by simp
      then have "real ((2::nat) ^ 52) \<le> real q" by (simp only: of_nat_le_iff)
      then have "2 ^ 52 * 2 powi K \<le> real q * 2 powi K"
        using pw_pos [of K] by (simp add: mult_right_mono)
      also note rounded(4)
      also note v
      finally have lt: "(2::real) powi K < 1" by simp
      show ?thesis
      proof (rule ccontr)
        assume "\<not> K < 0"
        then have "0 \<le> K" by simp
        then have "(2::real) powi 0 \<le> 2 powi K" by (rule pw_mono)
        with lt show False by simp
      qed
    qed
    then have h: "(2::real) powi K \<le> 1 / 2" by (rule pw_half)
    have s: "real (q + 1) * 2 powi K = real q * 2 powi K + 2 powi K" by (simp add: algebra_simps)
    have near: "\<bar>real q' * 2 powi K - real n * 2 powi e\<bar> < 1 / 2"
      using rounded(3,4,5) h unfolding s by (auto simp: algebra_simps abs_less_iff)
    have "real q' * 2 powi K \<le> real (q + 1) * 2 powi K"
    proof (rule mult_right_mono)
      show "real q' \<le> real (q + 1)" using rounded(3) by auto
      show "(0::real) \<le> 2 powi K" using pw_pos [of K] by simp
    qed
    also have "\<dots> \<le> real (2 ^ 52 + 1) * 2 powi 0"
      unfolding s using rounded(4) v h by simp
    finally have le: "real q' * 2 powi K \<le> real (2 ^ 52 + 1) * 2 powi 0" .
    have b: "bitlength (2 ^ 52 + 1) + 0 \<le> 1024" using bitlength_le [of "2 ^ 52 + 1" 53] by simp
    have "0 < q' \<or> K \<le> 1024" using K by simp
    with le b have "bitlength q' + K \<le> 1024" by (rule below_overflow)
    from finish_value [OF this, of s] rounded(1) near show ?thesis by auto
  qed
qed

subsection \<open>The value of a sum, a difference and a quotient\<close>

lemma align: "g \<le> e \<Longrightarrow> real (m * 2 ^ nat (e - g)) * 2 powi g = real m * 2 powi e"
  using pw_add [of "e - g" g] pw_nat [of "e - g"] by simp

lemma signed_value:
  "g \<le> e \<Longrightarrow> of_int (signed s (m * 2 ^ nat (e - g))) * 2 powi g = dval (Finite s m e)"
  using align [of g e m] by (simp add: signed_def)

lemma dval_sum:
  "dval (Finite s m e) + dval (Finite t n f)
     = of_int (signed s (m * 2 ^ nat (e - min e f)) + signed t (n * 2 ^ nat (f - min e f)))
         * 2 powi (min e f)"
  using signed_value [of "min e f" e s m] signed_value [of "min e f" f t n]
  by (simp add: algebra_simps)

lemma magnitude: "real (nat \<bar>i\<bar>) * 2 powi g = \<bar>of_int i * 2 powi g\<bar>"
  using pw_pos [of g] by (simp add: abs_mult)

lemma round_signed_exact:
  assumes i: "i \<noteq> 0" and c: "is_double c" "is_finite c" and eq: "of_int i * 2 powi g = dval c"
  shows "is_finite (round_double (i < 0) (nat \<bar>i\<bar>) sticky g) \<and>
         dval (round_double (i < 0) (nat \<bar>i\<bar>) sticky g) = dval c"
proof -
  from c obtain u M E where cf: "c = Finite u M E" by (cases c) simp_all
  with c have M: "M < 2 ^ 53" and E: "- 1074 \<le> E" and r: "bitlength M + E \<le> 1024" by simp_all
  have "real (nat \<bar>i\<bar>) * 2 powi g = \<bar>of_int i * 2 powi g\<bar>" by (rule magnitude)
  also have "\<dots> = \<bar>dval c\<bar>" using eq by simp
  also have "\<dots> = real M * 2 powi E" using pw_pos [of E] by (simp add: cf abs_mult)
  finally have e: "real (nat \<bar>i\<bar>) * 2 powi g = real M * 2 powi E" .
  have n: "0 < nat \<bar>i\<bar>" using i by simp
  from round_double_exact [OF n M E r e, of "i < 0" sticky]
  obtain m' e' where rd: "round_double (i < 0) (nat \<bar>i\<bar>) sticky g = Finite (i < 0) m' e'"
    and v0: "real m' * 2 powi e' = real M * 2 powi E" by blast
  from v0 have v: "real m' * 2 powi e' = \<bar>of_int i * 2 powi g\<bar>"
    unfolding e [symmetric] by (simp only: magnitude)
  have "dval (Finite (i < 0) m' e') = of_int i * 2 powi g"
    using v pw_pos [of g] by (simp add: abs_mult)
  then show ?thesis using rd eq by simp
qed

lemma round_signed_near:
  assumes i: "i \<noteq> 0" and b: "\<bar>real_of_int i * 2 powi g\<bar> < 2 ^ 52"
  shows "is_finite (round_double (i < 0) (nat \<bar>i\<bar>) sticky g) \<and>
         \<bar>dval (round_double (i < 0) (nat \<bar>i\<bar>) sticky g) - of_int i * 2 powi g\<bar> < 1 / 2"
proof -
  have n: "0 < nat \<bar>i\<bar>" using i by simp
  have "real (nat \<bar>i\<bar>) * 2 powi g < 2 ^ 52" using b by (simp only: magnitude)
  from round_double_near [OF n this, of "i < 0" sticky]
  obtain m' e' where rd: "round_double (i < 0) (nat \<bar>i\<bar>) sticky g = Finite (i < 0) m' e'"
    and v0: "\<bar>real m' * 2 powi e' - real (nat \<bar>i\<bar>) * 2 powi g\<bar> < 1 / 2" by blast
  from v0 have v: "\<bar>real m' * 2 powi e' - \<bar>of_int i * 2 powi g\<bar>\<bar> < 1 / 2"
    by (simp only: magnitude)
  have "\<bar>dval (Finite (i < 0) m' e') - of_int i * 2 powi g\<bar> < 1 / 2"
  proof (cases "i < 0")
    case True
    then have "real_of_int i * 2 powi g < 0" using pw_pos [of g] by (simp add: mult_neg_pos)
    with v True show ?thesis by (simp add: abs_if split: if_splits)
  next
    case False
    then have "0 \<le> real_of_int i * 2 powi g" using pw_pos [of g] by simp
    with v False show ?thesis by (simp add: abs_if split: if_splits)
  qed
  then show ?thesis using rd by simp
qed

lemma fadd_exact:
  assumes "is_finite a" "is_finite b" and c: "is_double c" "is_finite c"
    and eq: "dval a + dval b = dval c"
  shows "is_finite (fadd a b) \<and> dval (fadd a b) = dval c"
proof -
  from assms obtain s m e t n f where a: "a = Finite s m e" and b: "b = Finite t n f"
    by (cases a; cases b) simp_all
  let ?i = "signed s (m * 2 ^ nat (e - min e f)) + signed t (n * 2 ^ nat (f - min e f))"
  have sum: "of_int ?i * 2 powi (min e f) = dval c"
    using eq dval_sum [of s m e t n f] by (simp add: a b)
  show ?thesis
  proof (cases "?i = 0")
    case True
    then show ?thesis using sum by (simp add: a b)
  next
    case False
    from round_signed_exact [OF False c sum, of False] False
    show ?thesis by (simp add: a b Let_def)
  qed
qed

lemma fadd_near:
  assumes "is_finite a" "is_finite b" and bound: "\<bar>dval a + dval b\<bar> < 2 ^ 52"
  shows "is_finite (fadd a b) \<and> \<bar>dval (fadd a b) - (dval a + dval b)\<bar> < 1 / 2"
proof -
  from assms obtain s m e t n f where a: "a = Finite s m e" and b: "b = Finite t n f"
    by (cases a; cases b) simp_all
  let ?i = "signed s (m * 2 ^ nat (e - min e f)) + signed t (n * 2 ^ nat (f - min e f))"
  have sum: "dval a + dval b = of_int ?i * 2 powi (min e f)"
    using dval_sum [of s m e t n f] by (simp add: a b)
  show ?thesis
  proof (cases "?i = 0")
    case True
    then show ?thesis unfolding sum by (simp add: a b)
  next
    case False
    from bound have "\<bar>real_of_int ?i * 2 powi (min e f)\<bar> < 2 ^ 52" unfolding sum .
    from round_signed_near [OF False this, of False] False
    show ?thesis unfolding sum by (simp add: a b Let_def)
  qed
qed

lemma fneg_value [simp]:
  "dval (fneg a) = - dval a" "is_finite (fneg a) = is_finite a" "is_double (fneg a) = is_double a"
  by (cases a; simp)+

lemma fsub_exact:
  assumes "is_finite a" "is_finite b" "is_double c" "is_finite c" "dval a - dval b = dval c"
  shows "is_finite (fsub a b) \<and> dval (fsub a b) = dval c"
  unfolding fsub_def using assms by (intro fadd_exact) simp_all

lemma fsub_near:
  assumes "is_finite a" "is_finite b" "\<bar>dval a - dval b\<bar> < 2 ^ 52"
  shows "is_finite (fsub a b) \<and> \<bar>dval (fsub a b) - (dval a - dval b)\<bar> < 1 / 2"
  unfolding fsub_def using fadd_near [of a "fneg b"] assms by simp

lemma is_double_fadd: "is_double (fadd a b)"
  by (cases a; cases b) (simp_all add: Let_def is_double_round bitlength_eval)

lemma is_double_fmul: "is_double (fmul a b)"
  by (cases a; cases b) (simp_all add: Let_def is_double_round bitlength_eval)

subsection \<open>Comparison, minimum and maximum\<close>

lemma dlt_value: "is_finite a \<Longrightarrow> is_finite b \<Longrightarrow> dlt a b \<longleftrightarrow> dval a < dval b"
proof -
  assume "is_finite a" "is_finite b"
  then obtain s m e t n f where a: "a = Finite s m e" and b: "b = Finite t n f"
    by (cases a; cases b) simp_all
  let ?g = "min e f"
  have "dval a < dval b \<longleftrightarrow>
      of_int (signed s (m * 2 ^ nat (e - ?g))) * 2 powi ?g
        < (of_int (signed t (n * 2 ^ nat (f - ?g))) :: real) * 2 powi ?g"
    using signed_value [of ?g e s m] signed_value [of ?g f t n] by (simp add: a b)
  also have "\<dots> \<longleftrightarrow> signed s (m * 2 ^ nat (e - ?g)) < signed t (n * 2 ^ nat (f - ?g))"
    using pw_pos [of ?g] by (simp only: mult_less_cancel_right_pos of_int_less_iff)
  finally show ?thesis by (simp add: a b Let_def)
qed

lemma deq_value: "is_finite a \<Longrightarrow> is_finite b \<Longrightarrow> deq a b \<longleftrightarrow> dval a = dval b"
proof -
  assume "is_finite a" "is_finite b"
  then obtain s m e t n f where a: "a = Finite s m e" and b: "b = Finite t n f"
    by (cases a; cases b) simp_all
  let ?g = "min e f"
  have "dval a = dval b \<longleftrightarrow>
      of_int (signed s (m * 2 ^ nat (e - ?g))) * 2 powi ?g
        = (of_int (signed t (n * 2 ^ nat (f - ?g))) :: real) * 2 powi ?g"
    using signed_value [of ?g e s m] signed_value [of ?g f t n] by (simp add: a b)
  also have "\<dots> \<longleftrightarrow> signed s (m * 2 ^ nat (e - ?g)) = signed t (n * 2 ^ nat (f - ?g))"
    using pw_pos [of ?g] by simp
  finally show ?thesis by (simp add: a b Let_def)
qed

lemma is_zero_value: "is_zero sign x \<Longrightarrow> dval x = 0"
  by (cases x) simp_all

lemma math_min_from_finite:
  assumes "\<forall>x\<in>set xs. is_finite x" and "is_finite l"
  shows "math_min_from l xs \<in> insert l (set xs) \<and> dval (math_min_from l xs) \<le> dval l \<and>
         (\<forall>x\<in>set xs. dval (math_min_from l xs) \<le> dval x)"
  using assms
proof (induction xs arbitrary: l)
  case Nil
  then show ?case by simp
next
  case (Cons x xs)
  then have x: "is_finite x" and xs: "\<forall>y\<in>set xs. is_finite y" by simp_all
  from x have nan: "x \<noteq> NaN" by auto
  show ?case
  proof (cases "is_zero True x \<and> is_zero False l")
    case True
    then have "dval x = 0" "dval l = 0" by (auto intro: is_zero_value)
    with Cons.IH [OF xs x] True nan show ?thesis by auto
  next
    case False
    show ?thesis
    proof (cases "dlt x l")
      case True
      then have "dval x < dval l" using x Cons.prems(2) by (simp add: dlt_value)
      with Cons.IH [OF xs x] True False nan show ?thesis by auto
    next
      case nlt: False
      then have "dval l \<le> dval x" using x Cons.prems(2) by (simp add: dlt_value)
      with Cons.IH [OF xs Cons.prems(2)] nlt False nan show ?thesis by auto
    qed
  qed
qed

lemma math_min_finite:
  assumes "xs \<noteq> []" and fin: "\<forall>x\<in>set xs. is_finite x"
  shows "math_min xs \<in> set xs \<and> (\<forall>x\<in>set xs. dval (math_min xs) \<le> dval x)"
proof -
  from assms obtain y ys where xs: "xs = y # ys" by (cases xs) auto
  with fin have y: "is_finite y" and ys: "\<forall>x\<in>set ys. is_finite x" by simp_all
  from y obtain s m e where yf: "y = Finite s m e" by (cases y) simp_all
  have "math_min xs = math_min_from y ys" by (simp add: math_min_def xs yf)
  with math_min_from_finite [OF ys y] show ?thesis by (auto simp: xs)
qed

lemma math_max_from_finite:
  assumes "\<forall>x\<in>set xs. is_finite x" and "is_finite h"
  shows "math_max_from h xs \<in> insert h (set xs) \<and> dval h \<le> dval (math_max_from h xs) \<and>
         (\<forall>x\<in>set xs. dval x \<le> dval (math_max_from h xs))"
  using assms
proof (induction xs arbitrary: h)
  case Nil
  then show ?case by simp
next
  case (Cons x xs)
  then have x: "is_finite x" and xs: "\<forall>y\<in>set xs. is_finite y" by simp_all
  from x have nan: "x \<noteq> NaN" by auto
  show ?case
  proof (cases "is_zero False x \<and> is_zero True h")
    case True
    then have "dval x = 0" "dval h = 0" by (auto intro: is_zero_value)
    with Cons.IH [OF xs x] True nan show ?thesis by auto
  next
    case False
    show ?thesis
    proof (cases "dlt h x")
      case True
      then have "dval h < dval x" using x Cons.prems(2) by (simp add: dlt_value)
      with Cons.IH [OF xs x] True False nan show ?thesis by auto
    next
      case nlt: False
      then have "dval x \<le> dval h" using x Cons.prems(2) by (simp add: dlt_value)
      with Cons.IH [OF xs Cons.prems(2)] nlt False nan show ?thesis by auto
    qed
  qed
qed

lemma math_max_finite:
  assumes "xs \<noteq> []" and fin: "\<forall>x\<in>set xs. is_finite x"
  shows "math_max xs \<in> set xs \<and> (\<forall>x\<in>set xs. dval x \<le> dval (math_max xs))"
proof -
  from assms obtain y ys where xs: "xs = y # ys" by (cases xs) auto
  with fin have y: "is_finite y" and ys: "\<forall>x\<in>set ys. is_finite x" by simp_all
  from y obtain s m e where yf: "y = Finite s m e" by (cases y) simp_all
  have "math_max xs = math_max_from y ys" by (simp add: math_max_def xs yf)
  with math_max_from_finite [OF ys y] show ?thesis by (auto simp: xs)
qed

subsection \<open>Division\<close>

text \<open>A quotient that is a double is computed without rounding.\<close>

lemma fdiv_exact:
  assumes "is_finite a" "is_finite b" and nz: "dval b \<noteq> 0" and c: "is_double c" "is_finite c"
    and eq: "dval a = dval c * dval b"
  shows "is_finite (fdiv a b) \<and> dval (fdiv a b) = dval c"
proof -
  from assms obtain s m e t n f where a: "a = Finite s m e" and b: "b = Finite t n f"
    by (cases a; cases b) simp_all
  from c obtain u M E where cf: "c = Finite u M E" by (cases c) simp_all
  with c have M: "M < 2 ^ 53" and E: "- 1074 \<le> E" and r: "bitlength M + E \<le> 1024" by simp_all
  have n: "0 < n"
  proof (rule ccontr)
    assume "\<not> 0 < n"
    then have "dval b = 0" by (simp add: b)
    with nz show False by simp
  qed
  show ?thesis
  proof (cases "m = 0")
    case True
    have "dval a = 0" unfolding a True by simp
    then have "dval c = 0" using eq nz by simp
    then show ?thesis using n unfolding a b True by simp
  next
    case False
    define sh where "sh = 55 + bitlength n"
    define N where "N = m * 2 ^ nat sh"
    define e' where "e' = e - f - sh"
    define d where "d = E - e'"
    define A where "A = real m * 2 powi e"
    define B where "B = real n * 2 powi f"
    define C where "C = real M * 2 powi E"
    have A: "0 < A" using False pw_pos [of e] by (simp add: A_def)
    have B: "0 < B" using n pw_pos [of f] by (simp add: B_def)
    have C0: "0 \<le> C" using pw_pos [of E] by (simp add: C_def)
    have da: "dval a = (if s then - A else A)" by (simp add: a A_def)
    have db: "dval b = (if t then - B else B)" by (simp add: b B_def)
    have dc: "dval c = (if u then - C else C)" by (simp add: cf C_def)
    have aa: "\<bar>dval a\<bar> = A" using A by (simp add: da)
    have ab: "\<bar>dval b\<bar> = B" using B by (simp add: db)
    have ac: "\<bar>dval c\<bar> = C" using C0 by (simp add: dc)
    have "\<bar>dval a\<bar> = \<bar>dval c\<bar> * \<bar>dval b\<bar>" using eq by (simp add: abs_mult)
    then have abs_eq: "A = C * B" unfolding aa ab ac .
    with A B C0 have C: "0 < C" by (cases "C = 0") simp_all
    then have Mpos: "0 < M" by (cases "M = 0") (simp_all add: C_def)
    have sign: "(s \<noteq> t) = u"
    proof -
      have CB: "0 < C * B" using C B by simp
      show ?thesis using eq A CB unfolding da db dc abs_eq by (cases s; cases t; cases u) auto
    qed
    have sh: "0 \<le> sh" using bitlength_nonneg [of n] by (simp add: sh_def)
    have realN: "real N = real m * 2 powi sh" using sh by (simp add: N_def pw_nat)
    have p1: "(2::real) powi sh = 2 powi e * 2 powi (sh - e)" using pw_add [of e "sh - e"] by simp
    have "d = E + f + (sh - e)" by (simp add: d_def e'_def)
    then have p2: "(2::real) powi d = 2 powi E * 2 powi f * 2 powi (sh - e)" by (simp add: pw_add)
    have "real N = A * 2 powi (sh - e)" unfolding realN p1 A_def by simp
    also have "\<dots> = real M * real n * 2 powi d"
      unfolding abs_eq p2 B_def C_def by simp
    finally have Nd: "real N = real M * real n * 2 powi d" .
    have dpos: "0 \<le> d"
    proof (rule ccontr)
      assume "\<not> 0 \<le> d"
      then have "d \<le> 0" by simp
      then have "(2::real) powi d \<le> 2 powi 0" by (rule pw_mono)
      then have d1: "(2::real) powi d \<le> 1" by simp
      have "real M < 2 ^ 53" using M by (simp only: of_nat_less_iff [symmetric, where 'a = real] of_nat_power of_nat_numeral)
      then have M': "real M \<le> 2 powi 53" by simp
      have n': "real n < 2 powi (bitlength n)" by (rule real_bitlength_upper)
      have "real M * real n \<le> 2 powi 53 * real n"
        using M' by (rule mult_right_mono) simp
      also have "\<dots> < 2 powi 53 * 2 powi (bitlength n)"
        using n' pw_pos [of 53] by (simp only: mult_less_cancel_left_pos)
      also have "\<dots> = 2 powi (53 + bitlength n)" by (simp only: pw_add)
      finally have "real M * real n < 2 powi (53 + bitlength n)" .
      moreover have "0 \<le> real M * real n" by simp
      ultimately have "real M * real n * 2 powi d < 2 powi (53 + bitlength n)"
        using d1 pw_pos [of d]
        by (metis (no_types) le_less_trans mult_left_le)
      then have up: "real N < 2 powi (53 + bitlength n)" unfolding Nd .
      have "1 * 2 powi sh \<le> real m * 2 powi sh"
        using False pw_pos [of sh] by (intro mult_right_mono) simp_all
      then have "2 powi sh \<le> real N" unfolding realN by simp
      with up have "(2::real) powi sh < 2 powi (53 + bitlength n)" by simp
      moreover have "(2::real) powi (53 + bitlength n) \<le> 2 powi sh"
        by (rule pw_mono) (simp add: sh_def)
      ultimately show False by simp
    qed
    have "real N = real (M * n * 2 ^ nat d)" unfolding Nd using dpos by (simp add: pw_nat)
    then have Nnat: "N = M * n * 2 ^ nat d" by (simp only: of_nat_eq_iff)
    have q: "N div n = M * 2 ^ nat d" and rm: "N mod n = 0" using n by (simp_all add: Nnat)
    have "d + e' = E" by (simp add: d_def)
    then have "(2::real) powi E = 2 powi d * 2 powi e'" using pw_add [of d e'] by simp
    then have val: "real (M * 2 ^ nat d) * 2 powi e' = real M * 2 powi E"
      using dpos by (simp add: pw_nat)
    have qpos: "0 < M * 2 ^ nat d" using Mpos by simp
    from round_double_exact [OF qpos M E r val, of "s \<noteq> t" False]
    obtain m' e'' where
      rd: "round_double (s \<noteq> t) (M * 2 ^ nat d) False e' = Finite (s \<noteq> t) m' e''"
      and v: "real m' * 2 powi e'' = real M * 2 powi E" by blast
    have "fdiv a b = round_double (s \<noteq> t) (N div n) (N mod n \<noteq> 0) e'"
      using n False by (simp add: a b Let_def N_def sh_def e'_def)
    then have res: "fdiv a b = Finite (s \<noteq> t) m' e''" using rd by (simp add: q rm)
    show ?thesis using v sign by (simp add: res cf)
  qed
qed

section \<open>Lemmas: findIndex and save\<close>

lemma findIndex_bounds: "-1 \<le> findIndex P xs \<and> findIndex P xs < int (length xs)"
  by (induction xs) (auto simp: Let_def)

lemma findIndex_neg_iff: "findIndex P xs < 0 \<longleftrightarrow> (\<forall>a \<in> set xs. \<not> P a)"
  by (induction xs) (auto simp: Let_def)

lemma findIndex_none: "\<forall>a \<in> set xs. \<not> P a \<Longrightarrow> findIndex P xs = -1"
  using findIndex_neg_iff [of P xs] findIndex_bounds [of P xs] by simp

lemma findIndex_hit: "0 \<le> findIndex P xs \<Longrightarrow> P (xs ! nat (findIndex P xs))"
proof (induction xs)
  case Nil
  then show ?case by simp
next
  case (Cons a as)
  show ?case
  proof (cases "P a")
    case True
    then show ?thesis by simp
  next
    case False
    with Cons.prems have nn: "0 \<le> findIndex P as"
      by (simp add: Let_def split: if_splits)
    with False have "findIndex P (a # as) = findIndex P as + 1"
      by (simp add: Let_def)
    moreover have "nat (findIndex P as + 1) = Suc (nat (findIndex P as))"
      using nn by simp
    ultimately show ?thesis using Cons.IH [OF nn] by simp
  qed
qed

lemma findIndex_first: "0 \<le> findIndex P xs \<Longrightarrow> j < nat (findIndex P xs) \<Longrightarrow> \<not> P (xs ! j)"
proof (induction xs arbitrary: j)
  case Nil
  then show ?case by simp
next
  case (Cons a as)
  show ?case
  proof (cases "P a")
    case True
    with Cons.prems show ?thesis by simp
  next
    case False
    with Cons.prems have nn: "0 \<le> findIndex P as"
      by (simp add: Let_def split: if_splits)
    with False have eq: "nat (findIndex P (a # as)) = Suc (nat (findIndex P as))"
      by (simp add: Let_def)
    show ?thesis
    proof (cases j)
      case 0
      with False show ?thesis by simp
    next
      case (Suc k)
      with Cons.prems(2) eq have "k < nat (findIndex P as)" by simp
      with Cons.IH [OF nn] Suc show ?thesis by simp
    qed
  qed
qed

lemma find_first_hit:
  "i < length xs \<Longrightarrow> P (xs ! i) \<Longrightarrow> (\<forall>j < i. \<not> P (xs ! j)) \<Longrightarrow> find P xs = Some (xs ! i)"
proof (induction xs arbitrary: i)
  case Nil
  then show ?case by simp
next
  case (Cons a as)
  show ?case
  proof (cases i)
    case 0
    with Cons.prems show ?thesis by simp
  next
    case (Suc k)
    with Cons.prems have "\<not> P a" by auto
    moreover have "find P as = Some (as ! k)"
      using Cons.prems Suc by (intro Cons.IH) auto
    ultimately show ?thesis using Suc by simp
  qed
qed

text \<open>The two branches of \<open>save\<close>: the first record with the id is replaced, or there is
  none and the project is appended.\<close>

lemma save_projects_cases:
  "(\<exists>i < length old. p_id (old ! i) = p_id proj \<and> (\<forall>j < i. p_id (old ! j) \<noteq> p_id proj)
        \<and> save_projects now proj old = old[i := proj\<lparr>p_updated_at := now\<rparr>])
   \<or> ((\<forall>q \<in> set old. p_id q \<noteq> p_id proj) \<and> save_projects now proj old = old @ [proj])"
proof (cases "0 \<le> findIndex (\<lambda>p. p_id p = p_id proj) old")
  case True
  let ?i = "nat (findIndex (\<lambda>p. p_id p = p_id proj) old)"
  have "?i < length old" using True findIndex_bounds [of "\<lambda>p. p_id p = p_id proj" old] by simp
  moreover have "p_id (old ! ?i) = p_id proj" using findIndex_hit [OF True] .
  moreover have "\<forall>j < ?i. p_id (old ! j) \<noteq> p_id proj"
    using findIndex_first [OF True] by blast
  moreover have "save_projects now proj old = old[?i := proj\<lparr>p_updated_at := now\<rparr>]"
    using True by (simp add: save_projects_def)
  ultimately show ?thesis by blast
next
  case False
  then have "\<forall>q \<in> set old. p_id q \<noteq> p_id proj"
    using findIndex_neg_iff [of "\<lambda>p. p_id p = p_id proj" old] by simp
  moreover have "save_projects now proj old = old @ [proj]"
    using False by (simp add: save_projects_def)
  ultimately show ?thesis by blast
qed

lemma save_browser: "save True now proj ls = Inr (Some (save_projects now proj (getAll True ls)))"
  by (simp add: save_def)

lemma getById_after_save:
  "\<exists>ls stored. save True now proj ls0 = Inr ls \<and> getById True ls (p_id proj) = Some stored \<and>
      p_nodes stored = p_nodes proj \<and> p_connections stored = p_connections proj"
proof -
  let ?old = "getAll True ls0"
  let ?ps = "save_projects now proj ?old"
  let ?P = "\<lambda>p. p_id p = p_id proj"
  from save_projects_cases [of ?old proj now]
  consider (replace) i where "i < length ?old" "\<forall>j < i. p_id (?old ! j) \<noteq> p_id proj"
                             "?ps = ?old[i := proj\<lparr>p_updated_at := now\<rparr>]"
    | (append) "\<forall>q \<in> set ?old. p_id q \<noteq> p_id proj" "?ps = ?old @ [proj]"
    by blast
  then have "\<exists>stored. find ?P ?ps = Some stored \<and> p_nodes stored = p_nodes proj \<and>
                p_connections stored = p_connections proj"
  proof cases
    case replace
    have "find ?P ?ps = Some (?ps ! i)"
    proof (rule find_first_hit)
      show "i < length ?ps" using replace by simp
      show "p_id (?ps ! i) = p_id proj" using replace by simp
      show "\<forall>j < i. p_id (?ps ! j) \<noteq> p_id proj" using replace by simp
    qed
    then show ?thesis using replace by simp
  next
    case append
    have "find ?P (?old @ [proj]) = Some ((?old @ [proj]) ! length ?old)"
    proof (rule find_first_hit)
      show "length ?old < length (?old @ [proj])" by simp
      show "p_id ((?old @ [proj]) ! length ?old) = p_id proj" by simp
      show "\<forall>j < length ?old. p_id ((?old @ [proj]) ! j) \<noteq> p_id proj"
        using append by (simp add: nth_append)
    qed
    then show ?thesis using append by simp
  qed
  then show ?thesis by (simp add: save_browser getById_def getAll_def)
qed

section \<open>Lemmas: the normalizer\<close>

lemma truthy_not_nullish: "truthy v \<Longrightarrow> \<not> nullish v"
  by (cases v) (simp_all add: nullish_def)

lemma opt_chain_truthy:
  assumes "truthy (opt_get (opt_get r a) b)"
  shows "property b (property a r) = opt_get (opt_get r a) b"
proof -
  have r: "\<not> nullish r"
    using assms by (auto simp: opt_get_def nullish_def split: if_splits)
  then have "\<not> nullish (property a r)"
    using assms by (auto simp: opt_get_def nullish_def split: if_splits)
  with r show ?thesis by (simp add: opt_get_def)
qed

lemma falsy_has_no_nodes: "\<not> truthy v \<Longrightarrow> opt_get v ''nodes'' = JUndefined"
  by (cases v) (simp_all add: opt_get_def nullish_def)

lemma default_architecture_eq:
  "default_architecture draws data =
     JObj [(''nodes'', JArr (fallback_nodes draws)),
           (''connections'',
              JArr (fixed_connections draws (map (property ''id'') (fallback_nodes draws))))]"
  by (simp add: default_architecture_def Let_def)

lemma fallback_ids:
  "map (property ''id'') (fallback_nodes draws)
     = [JStr (generateId_at draws 0), JStr (generateId_at draws 1),
        JStr (generateId_at draws 2), JStr (generateId_at draws 3)]"
  by (simp add: fallback_nodes_def)

lemma fallback_types:
  "map (property ''type'') (fallback_nodes draws)
     = [JStr ''api-gateway'', JStr ''service'', JStr ''database'', JStr ''cache'']"
  by (simp add: fallback_nodes_def)

text \<open>The value of \<^verbatim>\<open>data\<close> after path 1 is never null, and its nodes are those of the
  structured data.\<close>

lemma data1_cases:
  "(if truthy (opt_get (opt_get response ''result'') ''data'')
    then property ''data'' (property ''result'' response) else JObj [])
   = (if truthy (opt_get (opt_get response ''result'') ''data'')
      then opt_get (opt_get response ''result'') ''data'' else JObj [])"
  by (simp add: opt_chain_truthy)

lemma data1_nodes:
  "property ''nodes''
     (if truthy (opt_get (opt_get response ''result'') ''data'')
      then property ''data'' (property ''result'' response) else JObj [])
   = opt_get (opt_get (opt_get response ''result'') ''data'') ''nodes''"
proof (cases "truthy (opt_get (opt_get response ''result'') ''data'')")
  case True
  then show ?thesis
    by (simp add: opt_chain_truthy) (simp add: opt_get_def [of "opt_get (opt_get response ''result'') ''data''"] truthy_not_nullish)
next
  case False
  then show ?thesis by (simp add: falsy_has_no_nodes)
qed

lemma data1_get:
  "get (if truthy (opt_get (opt_get response ''result'') ''data'')
        then property ''data'' (property ''result'' response) else JObj []) ''nodes''
   = Inr (opt_get (opt_get (opt_get response ''result'') ''data'') ''nodes'')"
proof -
  have "\<not> nullish (if truthy (opt_get (opt_get response ''result'') ''data'')
                     then property ''data'' (property ''result'' response) else JObj [])"
    using truthy_not_nullish [of "opt_get (opt_get response ''result'') ''data''"]
    by (simp add: opt_chain_truthy) (simp add: nullish_def)
  then show ?thesis using data1_nodes [of response] by (simp add: get_def)
qed

lemma parseAgentResponse_default:
  assumes no_data: "\<not> truthy (opt_get (opt_get (opt_get response ''result'') ''data'') ''nodes'')"
    and no_text: "\<not> truthy (opt_get (opt_get response ''result'') ''response'') \<or>
                  (\<forall>d. try_extract JSON_parse (opt_get (opt_get response ''result'') ''response'')
                         \<noteq> Inr (Some d))"
  shows "parseAgentResponse JSON_parse draws response
           = Inr (JArr (fallback_nodes draws),
                  JArr (fixed_connections draws (map (property ''id'') (fallback_nodes draws))))"
proof -
  let ?data1 = "if truthy (opt_get (opt_get response ''result'') ''data'')
                then property ''data'' (property ''result'' response) else JObj []"
  let ?text = "opt_get (opt_get response ''result'') ''response''"
  let ?data2 = "if \<not> truthy (opt_get (opt_get (opt_get response ''result'') ''data'') ''nodes'') \<and> truthy ?text
                then (case try_extract JSON_parse (property ''response'' (property ''result'' response)) of
                        Inl e \<Rightarrow> ?data1 | Inr None \<Rightarrow> ?data1 | Inr (Some d) \<Rightarrow> d)
                else ?data1"
  have d2: "?data2 = ?data1"
  proof (cases "truthy ?text")
    case False
    then show ?thesis by simp
  next
    case True
    then have t: "property ''response'' (property ''result'' response) = ?text"
      by (rule opt_chain_truthy)
    from True no_text have "\<forall>d. try_extract JSON_parse ?text \<noteq> Inr (Some d)" by simp
    then show ?thesis
      unfolding t by (cases "try_extract JSON_parse ?text") (auto split: option.splits)
  qed
  have "parseAgentResponse JSON_parse draws response
          = (case get ?data2 ''nodes'' of
               Inl e \<Rightarrow> Inl e
             | Inr nodes2 \<Rightarrow>
                 (let data3 = (if \<not> truthy nodes2 \<or> property ''length'' nodes2 = JNum 0
                               then default_architecture draws ?data2 else ?data2)
                  in Inr (or_else (property ''nodes'' data3) (JArr []),
                          or_else (property ''connections'' data3) (JArr []))))"
    unfolding parseAgentResponse_def Let_def data1_get by simp
  also have "\<dots> = Inr (or_else (property ''nodes'' (default_architecture draws ?data1)) (JArr []),
                       or_else (property ''connections'' (default_architecture draws ?data1)) (JArr []))"
    unfolding d2 data1_get using no_data by (simp add: Let_def)
  finally show ?thesis
    by (simp add: default_architecture_eq or_else_def)
qed

section \<open>Deleting the selected node\<close>

text \<open>
  C2 (as amended). For every project and every selected node id \<open>N\<close> other than the empty
  string, deleteSelectedNode succeeds and yields, in one step, a project whose nodes are
  the former nodes without those of id \<open>N\<close> and whose connections are the former
  connections without those whose source or target is \<open>N\<close>: no node and no connection of
  the resulting project refers to \<open>N\<close>, and the project read back from the store under the
  same id has the same nodes and connections.
\<close>

theorem deleteSelectedNode_removes:
  assumes sel: "cs_selectedNodeId (st_canvasState st) = Some N"
    and nonempty: "N \<noteq> []"
    and loaded: "st_project st = Some proj"
  shows "\<exists>st' updated stored.
           deleteSelectedNode now st = Inr st' \<and>
           st_project st' = Some updated \<and>
           p_nodes updated = filter (\<lambda>n. n_id n \<noteq> N) (p_nodes proj) \<and>
           p_connections updated =
             filter (\<lambda>c. c_source c \<noteq> N \<and> c_target c \<noteq> N) (p_connections proj) \<and>
           (\<forall>n \<in> set (p_nodes updated). n_id n \<noteq> N) \<and>
           (\<forall>c \<in> set (p_connections updated). c_source c \<noteq> N \<and> c_target c \<noteq> N) \<and>
           getById True (st_storage st') (p_id proj) = Some stored \<and>
           p_nodes stored = p_nodes updated \<and>
           p_connections stored = p_connections updated"
proof -
  let ?up = "proj\<lparr>p_nodes := filter (\<lambda>n. n_id n \<noteq> N) (p_nodes proj),
                   p_connections := filter (\<lambda>c. c_source c \<noteq> N \<and> c_target c \<noteq> N) (p_connections proj)\<rparr>"
  from getById_after_save [of now ?up "st_storage st"] obtain ls stored where
    s: "save True now ?up (st_storage st) = Inr ls"
    and g: "getById True ls (p_id proj) = Some stored"
    and n: "p_nodes stored = p_nodes ?up" and c: "p_connections stored = p_connections ?up"
    by auto
  have "deleteSelectedNode now st =
          Inr (st\<lparr>st_project := Some ?up, st_storage := ls, st_rightPanelOpen := False,
                  st_canvasState := (st_canvasState st)\<lparr>cs_selectedNodeId := None\<rparr>\<rparr>)"
    using sel nonempty loaded s by (simp add: deleteSelectedNode_def)
  with g n c show ?thesis by auto
qed

theorem deleteSelectedNode_removes_witness:
  "cs_selectedNodeId (st_canvasState (example_state (example_project ''p1'') (Some ''a''))) = Some ''a'' \<and>
   ''a'' \<noteq> [] \<and>
   st_project (example_state (example_project ''p1'') (Some ''a'')) = Some (example_project ''p1'') \<and>
   (\<exists>st'. deleteSelectedNode ''2026-11-02T00:00:00.000Z''
              (example_state (example_project ''p1'') (Some ''a'')) = Inr st' \<and>
          map_option (\<lambda>p. (map n_id (p_nodes p), map c_id (p_connections p))) (st_project st')
            = Some ([''b'', ''c''], [''e2'']))"
proof -
  have h1: "cs_selectedNodeId (st_canvasState (example_state (example_project ''p1'') (Some ''a'')))
              = Some ''a''"
    by (simp add: example_state_def)
  have h2: "''a'' \<noteq> []" by simp
  have h3: "st_project (example_state (example_project ''p1'') (Some ''a''))
              = Some (example_project ''p1'')"
    by (simp add: example_state_def)
  from deleteSelectedNode_removes [OF h1 h2 h3, of "''2026-11-02T00:00:00.000Z''"]
  obtain st' updated where
    r: "deleteSelectedNode ''2026-11-02T00:00:00.000Z''
          (example_state (example_project ''p1'') (Some ''a'')) = Inr st'"
    and u: "st_project st' = Some updated"
    and n: "p_nodes updated = filter (\<lambda>n. n_id n \<noteq> ''a'') (p_nodes (example_project ''p1''))"
    and c: "p_connections updated =
              filter (\<lambda>c. c_source c \<noteq> ''a'' \<and> c_target c \<noteq> ''a'')
                (p_connections (example_project ''p1''))"
    by blast
  have "map n_id (p_nodes updated) = [''b'', ''c'']"
    using n by (simp add: example_project_def example_node_def)
  moreover have "map c_id (p_connections updated) = [''e2'']"
    using c by (simp add: example_project_def example_connection_def)
  ultimately show ?thesis using h1 h2 h3 r u by simp
qed

text \<open>
  C2 as stated fails for a node whose id is the empty string: the guard
  \<^verbatim>\<open>!canvasState.selectedNodeId\<close> returns before anything is removed, and the node and the
  connection leaving it stay in the project.
\<close>

theorem deleteSelectedNode_empty_id_counterexample:
  "deleteSelectedNode ''2026-11-02T00:00:00.000Z'' (example_state unnamed_project (Some []))
     = Inr (example_state unnamed_project (Some [])) \<and>
   map n_id (p_nodes unnamed_project) = [[], ''b''] \<and>
   map c_source (p_connections unnamed_project) = [[]] \<and>
   st_project (example_state unnamed_project (Some [])) = Some unnamed_project"
  by (simp add: deleteSelectedNode_def example_state_def unnamed_project_def example_project_def
      example_node_def example_connection_def)

section \<open>ProjectStorage.save\<close>

text \<open>
  C5 (as amended). save upserts by project id. When a project with the same id is stored,
  the list keeps its length and the record read back under that id is the given project
  with updated_at set to the current time. When no project with that id is stored, the
  given project is appended as it is, and read back unchanged: created_at and updated_at
  are the ones the caller supplied.
\<close>

theorem save_upsert:
  "\<exists>ps. save True now proj ls = Inr (Some ps) \<and>
      ((\<exists>q \<in> set (getAll True ls). p_id q = p_id proj) \<longrightarrow>
          length ps = length (getAll True ls) \<and>
          getById True (Some ps) (p_id proj) = Some (proj\<lparr>p_updated_at := now\<rparr>)) \<and>
      ((\<forall>q \<in> set (getAll True ls). p_id q \<noteq> p_id proj) \<longrightarrow>
          ps = getAll True ls @ [proj] \<and>
          getById True (Some ps) (p_id proj) = Some proj)"
proof -
  let ?old = "getAll True ls"
  let ?ps = "save_projects now proj ?old"
  have s: "save True now proj ls = Inr (Some ?ps)" by (rule save_browser)
  have upd: "length ?ps = length ?old \<and>
             getById True (Some ?ps) (p_id proj) = Some (proj\<lparr>p_updated_at := now\<rparr>)"
    if ex: "\<exists>q \<in> set ?old. p_id q = p_id proj"
  proof -
    from save_projects_cases [of ?old proj now] ex obtain i where
      i: "i < length ?old" "\<forall>j < i. p_id (?old ! j) \<noteq> p_id proj"
         "?ps = ?old[i := proj\<lparr>p_updated_at := now\<rparr>]"
      by blast
    have "find (\<lambda>p. p_id p = p_id proj) ?ps = Some (?ps ! i)"
    proof (rule find_first_hit)
      show "i < length ?ps" using i by simp
      show "p_id (?ps ! i) = p_id proj" using i by simp
      show "\<forall>j < i. p_id (?ps ! j) \<noteq> p_id proj" using i by simp
    qed
    then show ?thesis using i by (simp add: getById_def getAll_def)
  qed
  have ins: "?ps = ?old @ [proj] \<and> getById True (Some ?ps) (p_id proj) = Some proj"
    if no: "\<forall>q \<in> set ?old. p_id q \<noteq> p_id proj"
  proof -
    from save_projects_cases [of ?old proj now] no have eq: "?ps = ?old @ [proj]"
      by (metis nth_mem)
    have "find (\<lambda>p. p_id p = p_id proj) (?old @ [proj]) = Some ((?old @ [proj]) ! length ?old)"
    proof (rule find_first_hit)
      show "length ?old < length (?old @ [proj])" by simp
      show "p_id ((?old @ [proj]) ! length ?old) = p_id proj" by simp
      show "\<forall>j < length ?old. p_id ((?old @ [proj]) ! j) \<noteq> p_id proj"
        using no by (simp add: nth_append)
    qed
    then show ?thesis using eq by (simp add: getById_def getAll_def)
  qed
  from s upd ins show ?thesis by blast
qed

theorem save_upsert_witness:
  "p_id (example_project ''p1'') = ''p1'' \<and>
   getAll True (Some [example_project ''p2'', example_project ''p1''])
     = [example_project ''p2'', example_project ''p1''] \<and>
   save True ''2026-11-02T00:00:00.000Z'' (example_project ''p1'')
       (Some [example_project ''p2'', example_project ''p1''])
     = Inr (Some [example_project ''p2'',
                  (example_project ''p1'')\<lparr>p_updated_at := ''2026-11-02T00:00:00.000Z''\<rparr>]) \<and>
   p_id (example_project ''p3'') = ''p3'' \<and>
   save True ''2026-11-02T00:00:00.000Z'' (example_project ''p3'')
       (Some [example_project ''p2'', example_project ''p1''])
     = Inr (Some [example_project ''p2'', example_project ''p1'', example_project ''p3''])"
  using save_upsert [of "''2026-11-02T00:00:00.000Z''" "example_project ''p1''"
                        "Some [example_project ''p2'', example_project ''p1'']"]
        save_upsert [of "''2026-11-02T00:00:00.000Z''" "example_project ''p3''"
                        "Some [example_project ''p2'', example_project ''p1'']"]
  by (simp add: save_def save_projects_def getAll_def example_project_def)

text \<open>
  C5 as stated fails on insert: saving, at a later time, a project that is not yet stored
  stores it with its own created_at and updated_at.
\<close>

theorem save_insert_timestamps_counterexample:
  "save True ''2026-11-02T00:00:00.000Z'' (example_project ''p1'') None
     = Inr (Some [example_project ''p1'']) \<and>
   p_created_at (example_project ''p1'') = ''2024-01-01T00:00:00.000Z'' \<and>
   p_updated_at (example_project ''p1'') = ''2024-01-02T00:00:00.000Z'' \<and>
   p_created_at (example_project ''p1'') \<noteq> ''2026-11-02T00:00:00.000Z'' \<and>
   p_updated_at (example_project ''p1'') \<noteq> ''2026-11-02T00:00:00.000Z''"
  by (simp add: save_def save_projects_def getAll_def example_project_def)

text \<open>
  C10. For every stored list and every project \<open>proj\<close>, save either replaces one record
  whose id is that of \<open>proj\<close>, in place, or, when no stored record has that id, appends
  \<open>proj\<close> at the end. Every stored project with another id stays at its index, unchanged,
  and the sequence of the projects with other ids is the same before and after.
\<close>

theorem save_frame:
  "\<exists>ps. save True now proj ls = Inr (Some ps) \<and>
      ((\<exists>i < length (getAll True ls). p_id (getAll True ls ! i) = p_id proj \<and>
            ps = (getAll True ls)[i := proj\<lparr>p_updated_at := now\<rparr>])
       \<or> ((\<forall>q \<in> set (getAll True ls). p_id q \<noteq> p_id proj) \<and> ps = getAll True ls @ [proj])) \<and>
      (\<forall>j < length (getAll True ls).
          p_id (getAll True ls ! j) \<noteq> p_id proj \<longrightarrow> j < length ps \<and> ps ! j = getAll True ls ! j) \<and>
      filter (\<lambda>q. p_id q \<noteq> p_id proj) ps = filter (\<lambda>q. p_id q \<noteq> p_id proj) (getAll True ls)"
proof -
  let ?old = "getAll True ls"
  let ?ps = "save_projects now proj ?old"
  let ?other = "\<lambda>q. p_id q \<noteq> p_id proj"
  have s: "save True now proj ls = Inr (Some ?ps)" by (rule save_browser)
  from save_projects_cases [of ?old proj now]
  consider (replace) i where "i < length ?old" "p_id (?old ! i) = p_id proj"
                             "?ps = ?old[i := proj\<lparr>p_updated_at := now\<rparr>]"
    | (append) "\<forall>q \<in> set ?old. p_id q \<noteq> p_id proj" "?ps = ?old @ [proj]"
    by blast
  then show ?thesis
  proof cases
    case replace
    have nth: "\<forall>j < length ?old. ?other (?old ! j) \<longrightarrow> j < length ?ps \<and> ?ps ! j = ?old ! j"
      using replace by (auto simp: nth_list_update)
    have "filter ?other (?old[i := proj\<lparr>p_updated_at := now\<rparr>]) = filter ?other ?old"
    proof -
      have parts: "?old = take i ?old @ ?old ! i # drop (Suc i) ?old"
        using replace(1) by (simp add: id_take_nth_drop)
      have "?old[i := proj\<lparr>p_updated_at := now\<rparr>]
              = take i ?old @ proj\<lparr>p_updated_at := now\<rparr> # drop (Suc i) ?old"
        using replace(1) by (simp add: upd_conv_take_nth_drop)
      then have "filter ?other (?old[i := proj\<lparr>p_updated_at := now\<rparr>])
              = filter ?other (take i ?old) @ filter ?other (drop (Suc i) ?old)"
        by simp
      also have "\<dots> = filter ?other (take i ?old @ ?old ! i # drop (Suc i) ?old)"
        using replace(2) by simp
      also have "\<dots> = filter ?other ?old" using parts by simp
      finally show ?thesis .
    qed
    with s replace nth show ?thesis by auto
  next
    case append
    have "\<forall>j < length ?old. ?other (?old ! j) \<longrightarrow> j < length ?ps \<and> ?ps ! j = ?old ! j"
      using append by (simp add: nth_append)
    moreover have "filter ?other ?ps = filter ?other ?old" using append by simp
    ultimately show ?thesis using s append by auto
  qed
qed

theorem save_frame_witness:
  "save True ''2026-11-02T00:00:00.000Z'' (example_project ''p1'')
       (Some [example_project ''p2'', example_project ''p1'', example_project ''p3''])
     = Inr (Some [example_project ''p2'',
                  (example_project ''p1'')\<lparr>p_updated_at := ''2026-11-02T00:00:00.000Z''\<rparr>,
                  example_project ''p3'']) \<and>
   p_id (example_project ''p2'') \<noteq> p_id (example_project ''p1'') \<and>
   p_id (example_project ''p3'') \<noteq> p_id (example_project ''p1'')"
  using save_frame [of "''2026-11-02T00:00:00.000Z''" "example_project ''p1''"
                       "Some [example_project ''p2'', example_project ''p1'', example_project ''p3'']"]
  by (simp add: save_def save_projects_def getAll_def example_project_def)

section \<open>createNodeFromTemplate\<close>

lemma generateId_nonempty: "generateId ms rnd \<noteq> []"
  by (simp add: generateId_def)

text \<open>
  C6 (as amended). For every template and drop position, createNodeFromTemplate returns a
  node whose id is the one generateId produced in this call (a non-empty string), whose
  position is the drop position, whose specifications are the template's default specs
  themselves (the same object, not a copy), and whose scaling and fault-tolerance blocks
  are the fixed defaults: horizontal and auto_scaling true, vertical false; replication,
  backup and failover true.
\<close>

theorem createNodeFromTemplate_fields:
  "n_id (createNodeFromTemplate ms rnd template position) = generateId ms rnd \<and>
   n_id (createNodeFromTemplate ms rnd template position) \<noteq> [] \<and>
   n_position (createNodeFromTemplate ms rnd template position) = position \<and>
   n_specifications (createNodeFromTemplate ms rnd template position) = t_defaultSpecs template \<and>
   n_scaling (createNodeFromTemplate ms rnd template position)
     = Some \<lparr>horizontal = Some True, vertical = Some False, auto_scaling = Some True,
             scaling_details = Some ''Scales based on CPU/memory usage''\<rparr> \<and>
   n_fault_tolerance (createNodeFromTemplate ms rnd template position)
     = Some \<lparr>replication = Some True, backup = Some True, failover = Some True,
             fault_details = Some ''Multi-region deployment with automated failover''\<rparr>"
  by (simp add: createNodeFromTemplate_def generateId_nonempty)

text \<open>
  C6 as stated fails on "copied by value": with the template's default specs at address 0,
  the new node's specifications are address 0 as well, and a property written through the
  node is read back through the template.
\<close>

theorem createNodeFromTemplate_shares_specs_counterexample:
  "n_specifications (createNodeFromTemplate 1700000000000 ''k3j9x2m1q'' example_template
                       \<lparr>px = dbl 120, py = dbl 80\<rparr>) = Some 0 \<and>
   t_defaultSpecs example_template = Some 0 \<and>
   read_prop example_heap 0 ''technology'' = Some ''NGINX / Kong'' \<and>
   read_prop
     (write_prop example_heap
        (the (n_specifications (createNodeFromTemplate 1700000000000 ''k3j9x2m1q'' example_template
                                  \<lparr>px = dbl 120, py = dbl 80\<rparr>)))
        ''technology'' ''Envoy'')
     (the (t_defaultSpecs example_template)) ''technology'' = Some ''Envoy''"
  by (simp add: createNodeFromTemplate_def example_template_def example_heap_def
      read_prop_def write_prop_def)

section \<open>Generation and the project status\<close>

text \<open>The part of handleGenerateDesign before the agent call never writes the project.\<close>

lemma handleGenerateDesign_start_project:
  "st_project (fst (handleGenerateDesign_start st)) = st_project st"
  by (simp add: handleGenerateDesign_start_def)

text \<open>The part after the call leaves the project as it is or sets one whose status is
  completed.\<close>

lemma handleGenerateDesign_try_status:
  assumes "handleGenerateDesign_try parse now captured outcome st = Some st'"
  shows "st_project st' = st_project st \<or>
         (\<exists>p. st_project st' = Some p \<and> p_status p = Completed)"
  using assms
  by (auto simp: handleGenerateDesign_try_def generation_failed_def generation_rejected_def
      Let_def save_def
      split: AgentOutcome.splits if_splits sum.splits prod.splits option.splits)

lemma handleGenerateDesign_resume_status:
  assumes "handleGenerateDesign_resume parse now captured outcome st = Some st'"
  shows "st_project st' = st_project st \<or>
         (\<exists>p. st_project st' = Some p \<and> p_status p = Completed)"
proof -
  from assms obtain st1 where
    t: "handleGenerateDesign_try parse now captured outcome st = Some st1"
    and e: "st' = st1\<lparr>st_isGenerating := False\<rparr>"
    by (auto simp: handleGenerateDesign_resume_def)
  from handleGenerateDesign_try_status [OF t] e show ?thesis by auto
qed

lemma trim_example: "trim ''An online shop'' = ''An online shop''"
  by (simp add: trim_def is_space_def)

text \<open>
  C7. The claim is that the status goes from draft to generating while the agent call is
  in flight and to completed when the nodes are applied. Evaluated on a draft project with
  requirements: after the first part of handleGenerateDesign the flag isGenerating is set
  and the call is issued, but the status of the project is still draft; after the call
  resolves with one node the status is completed. The status generating is not assigned.
\<close>

theorem handleGenerateDesign_status_trace:
  "map_option p_status (st_project (example_state (example_project ''p1'') None)) = Some Draft \<and>
   st_isGenerating (fst (handleGenerateDesign_start (example_state (example_project ''p1'') None))) \<and>
   map_option p_status
     (st_project (fst (handleGenerateDesign_start (example_state (example_project ''p1'') None))))
     = Some Draft \<and>
   snd (handleGenerateDesign_start (example_state (example_project ''p1'') None))
     = Some (generation_message ''An online shop'' Technical, Some (example_project ''p1'')) \<and>
   map_option (\<lambda>st. (st_isGenerating st, map_option p_status (st_project st)))
     (handleGenerateDesign_resume example_parse ''2026-11-02T00:00:00.000Z''
        (Some (example_project ''p1'')) (Resolved example_result)
        (fst (handleGenerateDesign_start (example_state (example_project ''p1'') None))))
     = Some (False, Some Completed)"
  by (simp add: handleGenerateDesign_start_def handleGenerateDesign_resume_def
      handleGenerateDesign_try_def example_state_def example_project_def trim_example
      example_parse_def example_result_def get_def nullish_def save_def Let_def)

section \<open>The agent response normalizer\<close>

lemma fixed_connections_ends:
  "map (\<lambda>c. (property ''source'' c, property ''target'' c))
     (fixed_connections draws (map (property ''id'') (fallback_nodes draws)))
   = [(JStr (generateId_at draws 0), JStr (generateId_at draws 1)),
      (JStr (generateId_at draws 1), JStr (generateId_at draws 2)),
      (JStr (generateId_at draws 1), JStr (generateId_at draws 3))]"
  by (simp add: fallback_ids fixed_connections_def connection_object_def at_index_def)

lemma generateId_at_nonempty: "generateId_at draws k \<noteq> []"
  by (simp add: generateId_at_def generateId_def)

text \<open>
  C3. For every agent response whose structured data has no nodes and whose free text is
  absent or yields no parsed value (it is no string, holds no candidate, or its candidate
  fails to parse), parseAgentResponse returns four nodes of types api-gateway, service,
  database and cache, whose ids are the first four ids generated in this call, each a
  non-empty string, and three connections whose sources and targets are ids of these
  nodes: first to second, second to third, second to fourth.
\<close>

theorem parseAgentResponse_fallback:
  assumes no_data: "\<not> truthy (opt_get (opt_get (opt_get response ''result'') ''data'') ''nodes'')"
    and no_text: "\<not> truthy (opt_get (opt_get response ''result'') ''response'') \<or>
                  (\<forall>d. try_extract JSON_parse (opt_get (opt_get response ''result'') ''response'')
                         \<noteq> Inr (Some d))"
  shows "\<exists>ns cs.
           parseAgentResponse JSON_parse draws response = Inr (JArr ns, JArr cs) \<and>
           length ns = 4 \<and>
           map (property ''type'') ns
             = [JStr ''api-gateway'', JStr ''service'', JStr ''database'', JStr ''cache''] \<and>
           map (property ''id'') ns
             = [JStr (generateId_at draws 0), JStr (generateId_at draws 1),
                JStr (generateId_at draws 2), JStr (generateId_at draws 3)] \<and>
           (\<forall>i \<in> set (map (property ''id'') ns). \<exists>s. i = JStr s \<and> s \<noteq> []) \<and>
           (\<forall>c \<in> set cs. property ''source'' c \<in> set (map (property ''id'') ns) \<and>
                          property ''target'' c \<in> set (map (property ''id'') ns)) \<and>
           map (\<lambda>c. (property ''source'' c, property ''target'' c)) cs
             = [(JStr (generateId_at draws 0), JStr (generateId_at draws 1)),
                (JStr (generateId_at draws 1), JStr (generateId_at draws 2)),
                (JStr (generateId_at draws 1), JStr (generateId_at draws 3))]"
proof -
  let ?ns = "fallback_nodes draws"
  let ?cs = "fixed_connections draws (map (property ''id'') ?ns)"
  have r: "parseAgentResponse JSON_parse draws response = Inr (JArr ?ns, JArr ?cs)"
    using no_data no_text by (rule parseAgentResponse_default)
  have len: "length ?ns = 4" by (simp add: fallback_nodes_def)
  have ids: "\<forall>i \<in> set (map (property ''id'') ?ns). \<exists>s. i = JStr s \<and> s \<noteq> []"
    unfolding fallback_ids by (simp add: generateId_at_nonempty)
  have ends: "\<forall>c \<in> set ?cs. property ''source'' c \<in> set (map (property ''id'') ?ns) \<and>
                           property ''target'' c \<in> set (map (property ''id'') ?ns)"
    unfolding fallback_ids by (simp add: fixed_connections_def connection_object_def at_index_def)
  show ?thesis
    by (intro exI [of _ ?ns] exI [of _ ?cs] conjI r len fallback_types fallback_ids ids ends
        fixed_connections_ends)
qed


theorem parseAgentResponse_fallback_witness:
  "\<not> truthy (opt_get (opt_get (opt_get (reply_with_text ''no diagram today'') ''result'') ''data'') ''nodes'') \<and>
   try_extract JSON_parse_sample (opt_get (opt_get (reply_with_text ''no diagram today'') ''result'') ''response'')
     = Inr None \<and>
   (\<exists>ns cs. parseAgentResponse JSON_parse_sample example_draws (reply_with_text ''no diagram today'')
               = Inr (JArr ns, JArr cs) \<and>
            map (property ''type'') ns
              = [JStr ''api-gateway'', JStr ''service'', JStr ''database'', JStr ''cache''] \<and>
            map (property ''id'') ns
              = [JStr ''1700000000000-k3j9x2m1q'', JStr ''1700000000001-k3j9x2m1q'',
                 JStr ''1700000000002-k3j9x2m1q'', JStr ''1700000000003-k3j9x2m1q''] \<and>
            map (\<lambda>c. (property ''source'' c, property ''target'' c)) cs
              = [(JStr ''1700000000000-k3j9x2m1q'', JStr ''1700000000001-k3j9x2m1q''),
                 (JStr ''1700000000001-k3j9x2m1q'', JStr ''1700000000002-k3j9x2m1q''),
                 (JStr ''1700000000001-k3j9x2m1q'', JStr ''1700000000003-k3j9x2m1q'')])"
proof -
  have t: "opt_get (opt_get (reply_with_text ''no diagram today'') ''result'') ''response''
             = JStr ''no diagram today''"
    by (simp add: reply_with_text_def opt_get_def nullish_def)
  have h1: "\<not> truthy (opt_get (opt_get (opt_get (reply_with_text ''no diagram today'') ''result'')
                          ''data'') ''nodes'')"
    by (simp add: reply_with_text_def opt_get_def nullish_def)
  have e: "try_extract JSON_parse_sample (JStr ''no diagram today'') = Inr None"
    by (simp add: try_extract_def closes_def is_space_def indexOf_def lastIndexOf_def Let_def)
  have h2: "\<not> truthy (opt_get (opt_get (reply_with_text ''no diagram today'') ''result'') ''response'') \<or>
            (\<forall>d. try_extract JSON_parse_sample
                    (opt_get (opt_get (reply_with_text ''no diagram today'') ''result'') ''response'')
                  \<noteq> Inr (Some d))"
    unfolding t e by simp
  have g: "generateId_at example_draws 0 = ''1700000000000-k3j9x2m1q''"
          "generateId_at example_draws 1 = ''1700000000001-k3j9x2m1q''"
          "generateId_at example_draws 2 = ''1700000000002-k3j9x2m1q''"
          "generateId_at example_draws 3 = ''1700000000003-k3j9x2m1q''"
    by (simp_all add: generateId_at_def example_draws_def generateId_def string_of_int_def)
  from parseAgentResponse_fallback [OF h1 h2, of example_draws] obtain ns cs where
    r: "parseAgentResponse JSON_parse_sample example_draws (reply_with_text ''no diagram today'')
          = Inr (JArr ns, JArr cs)"
    and ty: "map (property ''type'') ns
               = [JStr ''api-gateway'', JStr ''service'', JStr ''database'', JStr ''cache'']"
    and ids: "map (property ''id'') ns
               = [JStr (generateId_at example_draws 0), JStr (generateId_at example_draws 1),
                  JStr (generateId_at example_draws 2), JStr (generateId_at example_draws 3)]"
    and ends: "map (\<lambda>c. (property ''source'' c, property ''target'' c)) cs
               = [(JStr (generateId_at example_draws 0), JStr (generateId_at example_draws 1)),
                  (JStr (generateId_at example_draws 1), JStr (generateId_at example_draws 2)),
                  (JStr (generateId_at example_draws 1), JStr (generateId_at example_draws 3))]"
    by (elim exE conjE)
  have e': "try_extract JSON_parse_sample
              (opt_get (opt_get (reply_with_text ''no diagram today'') ''result'') ''response'') = Inr None"
    unfolding t by (rule e)
  show ?thesis
    by (intro conjI h1 e' exI [of _ ns] exI [of _ cs] r ty ids [unfolded g] ends [unfolded g])
qed

text \<open>
  C4 (as amended). For every agent response without structured nodes whose free text is a
  string that fails to parse as JSON, either in its fenced block or, when it has no fenced
  block, in the substring from its first opening brace to its last closing brace, the
  exception is caught: parseAgentResponse returns normally, and what it returns is the
  four-node default architecture of step 4. After a fenced block that fails to parse the
  brace substring is not tried.
\<close>

theorem parseAgentResponse_parse_exception:
  assumes no_data: "\<not> truthy (opt_get (opt_get (opt_get response ''result'') ''data'') ''nodes'')"
    and free_text: "opt_get (opt_get response ''result'') ''response'' = JStr s"
    and fails: "(\<exists>captured e. fence_match s = Some captured \<and> JSON_parse captured = Inl e) \<or>
                (\<exists>e. fence_match s = None \<and> indexOf s CHR ''{'' \<noteq> -1 \<and> lastIndexOf s CHR ''}'' \<noteq> -1 \<and>
                     JSON_parse (substring s (indexOf s CHR ''{'') (lastIndexOf s CHR ''}'' + 1)) = Inl e)"
  shows "parseAgentResponse JSON_parse draws response
           = Inr (JArr (fallback_nodes draws),
                  JArr (fixed_connections draws (map (property ''id'') (fallback_nodes draws))))"
proof -
  from fails have "\<exists>e. try_extract JSON_parse (JStr s) = Inl e"
    by (auto simp: try_extract_def Let_def)
  then have "\<forall>d. try_extract JSON_parse (opt_get (opt_get response ''result'') ''response'')
                    \<noteq> Inr (Some d)"
    unfolding free_text by auto
  then show ?thesis using no_data by (intro parseAgentResponse_default) simp_all
qed

lemma fenced_reply_capture: "fence_match fenced_reply = Some ''oops''"
  by (simp add: fenced_reply_def closes_def is_space_def)

lemma fenced_reply_braces:
  \<open>substring fenced_reply (indexOf fenced_reply CHR ''{'') (lastIndexOf fenced_reply CHR ''}'' + 1)
     = ''{"nodes":[{"id":"n1"}]}''\<close>
  by (simp add: fenced_reply_def substring_def indexOf_def lastIndexOf_def Let_def)

lemma reply_with_text_parts:
  "opt_get (opt_get (reply_with_text s) ''result'') ''response'' = JStr s"
  "opt_get (opt_get (opt_get (reply_with_text s) ''result'') ''data'') ''nodes'' = JUndefined"
  by (simp_all add: reply_with_text_def opt_get_def nullish_def)

theorem parseAgentResponse_parse_exception_witness:
  "\<not> truthy (opt_get (opt_get (opt_get (reply_with_text fenced_reply) ''result'') ''data'') ''nodes'') \<and>
   opt_get (opt_get (reply_with_text fenced_reply) ''result'') ''response'' = JStr fenced_reply \<and>
   fence_match fenced_reply = Some ''oops'' \<and>
   JSON_parse_sample ''oops'' = Inl SyntaxError \<and>
   parseAgentResponse JSON_parse_sample example_draws (reply_with_text fenced_reply)
     = Inr (JArr (fallback_nodes example_draws),
            JArr (fixed_connections example_draws
                    (map (property ''id'') (fallback_nodes example_draws)))) \<and>
   fence_match ''see {oops}'' = None \<and>
   substring ''see {oops}'' (indexOf ''see {oops}'' CHR ''{'') (lastIndexOf ''see {oops}'' CHR ''}'' + 1)
     = ''{oops}'' \<and>
   JSON_parse_sample ''{oops}'' = Inl SyntaxError \<and>
   parseAgentResponse JSON_parse_sample example_draws (reply_with_text ''see {oops}'')
     = Inr (JArr (fallback_nodes example_draws),
            JArr (fixed_connections example_draws
                    (map (property ''id'') (fallback_nodes example_draws))))"
proof -
  have k1: "\<not> truthy (opt_get (opt_get (opt_get (reply_with_text ''see {oops}'') ''result'') ''data'') ''nodes'')"
    by (simp add: reply_with_text_parts)
  have k2: "opt_get (opt_get (reply_with_text ''see {oops}'') ''result'') ''response'' = JStr ''see {oops}''"
    by (simp add: reply_with_text_parts)
  have f: "fence_match ''see {oops}'' = None" by simp
  have i: "indexOf ''see {oops}'' CHR ''{'' = 4" "lastIndexOf ''see {oops}'' CHR ''}'' = 9"
    by (simp_all add: indexOf_def lastIndexOf_def)
  have b: "substring ''see {oops}'' (indexOf ''see {oops}'' CHR ''{'') (lastIndexOf ''see {oops}'' CHR ''}'' + 1)
             = ''{oops}''"
    unfolding i by (simp add: substring_def)
  have q: "JSON_parse_sample ''{oops}'' = Inl SyntaxError"
    by (simp add: JSON_parse_sample_def)
  have k3: "(\<exists>captured e. fence_match ''see {oops}'' = Some captured \<and> JSON_parse_sample captured = Inl e) \<or>
            (\<exists>e. fence_match ''see {oops}'' = None \<and> indexOf ''see {oops}'' CHR ''{'' \<noteq> -1 \<and>
                 lastIndexOf ''see {oops}'' CHR ''}'' \<noteq> -1 \<and>
                 JSON_parse_sample (substring ''see {oops}'' (indexOf ''see {oops}'' CHR ''{'')
                                      (lastIndexOf ''see {oops}'' CHR ''}'' + 1)) = Inl e)"
    unfolding b using f q by (simp add: i)
  have h1: "\<not> truthy (opt_get (opt_get (opt_get (reply_with_text fenced_reply) ''result'') ''data'') ''nodes'')"
    by (simp add: reply_with_text_parts)
  have h2: "opt_get (opt_get (reply_with_text fenced_reply) ''result'') ''response'' = JStr fenced_reply"
    by (simp add: reply_with_text_parts)
  have p: "JSON_parse_sample ''oops'' = Inl SyntaxError"
    by (simp add: JSON_parse_sample_def)
  have h3: "(\<exists>captured e. fence_match fenced_reply = Some captured \<and> JSON_parse_sample captured = Inl e) \<or>
            (\<exists>e. fence_match fenced_reply = None \<and> indexOf fenced_reply CHR ''{'' \<noteq> -1 \<and>
                 lastIndexOf fenced_reply CHR ''}'' \<noteq> -1 \<and>
                 JSON_parse_sample (substring fenced_reply (indexOf fenced_reply CHR ''{'')
                                      (lastIndexOf fenced_reply CHR ''}'' + 1)) = Inl e)"
    using fenced_reply_capture p by blast
  show ?thesis
    by (intro conjI h1 h2 fenced_reply_capture p f b q
        parseAgentResponse_parse_exception [OF h1 h2 h3]
        parseAgentResponse_parse_exception [OF k1 k2 k3])
qed

text \<open>
  C4 as stated fails on "the next step": the fenced block of this reply is not JSON, its
  brace substring parses to a payload with one node, and the result is the default
  architecture, not that node.
\<close>

theorem parseAgentResponse_skips_braces_counterexample:
  \<open>fence_match fenced_reply = Some ''oops'' \<and>
   JSON_parse_sample ''oops'' = Inl SyntaxError \<and>
   JSON_parse_sample
     (substring fenced_reply (indexOf fenced_reply CHR ''{'') (lastIndexOf fenced_reply CHR ''}'' + 1))
     = Inr (JObj [(''nodes'', JArr [JObj [(''id'', JStr ''n1'')]])]) \<and>
   parseAgentResponse JSON_parse_sample example_draws (reply_with_text fenced_reply)
     = Inr (JArr (fallback_nodes example_draws),
            JArr (fixed_connections example_draws
                    (map (property ''id'') (fallback_nodes example_draws)))) \<and>
   JArr (fallback_nodes example_draws) \<noteq> JArr [JObj [(''id'', JStr ''n1'')]]\<close>
proof -
  have p: "JSON_parse_sample ''oops'' = Inl SyntaxError"
    by (simp add: JSON_parse_sample_def)
  have "try_extract JSON_parse_sample (JStr fenced_reply) = Inl SyntaxError"
    by (simp add: try_extract_def fenced_reply_capture p)
  then have "\<forall>d. try_extract JSON_parse_sample
                    (opt_get (opt_get (reply_with_text fenced_reply) ''result'') ''response'')
                  \<noteq> Inr (Some d)"
    by (simp add: reply_with_text_parts)
  then have r: "parseAgentResponse JSON_parse_sample example_draws (reply_with_text fenced_reply)
     = Inr (JArr (fallback_nodes example_draws),
            JArr (fixed_connections example_draws
                    (map (property ''id'') (fallback_nodes example_draws))))"
    by (intro parseAgentResponse_default) (simp_all add: reply_with_text_parts)
  have b: \<open>JSON_parse_sample
     (substring fenced_reply (indexOf fenced_reply CHR ''{'') (lastIndexOf fenced_reply CHR ''}'' + 1))
     = Inr (JObj [(''nodes'', JArr [JObj [(''id'', JStr ''n1'')]])])\<close>
    unfolding fenced_reply_braces by (simp add: JSON_parse_sample_def)
  have d: "JArr (fallback_nodes example_draws) \<noteq> JArr [JObj [(''id'', JStr ''n1'')]]"
    by (simp add: fallback_nodes_def)
  show ?thesis by (intro conjI fenced_reply_capture p b r d)
qed

text \<open>
  A remark beside C4: a fenced block that does parse, to \<^verbatim>\<open>null\<close>, is assigned to
  \<^verbatim>\<open>data\<close>, and the read of \<^verbatim>\<open>data.nodes\<close> after the \<^verbatim>\<open>try\<close> block throws.
\<close>

lemma parseAgentResponse_null_payload:
  assumes no_data: "\<not> truthy (opt_get (opt_get (opt_get response ''result'') ''data'') ''nodes'')"
    and free_text: "opt_get (opt_get response ''result'') ''response'' = JStr s"
    and fenced: "fence_match s = Some captured"
    and parsed: "JSON_parse captured = Inr JNull"
  shows "parseAgentResponse JSON_parse draws response = Inl TypeError"
proof -
  have ne: "s \<noteq> []" using fenced by auto
  then have t: "truthy (opt_get (opt_get response ''result'') ''response'')"
    by (simp add: free_text)
  have p: "property ''response'' (property ''result'' response) = JStr s"
    using opt_chain_truthy [OF t] free_text by simp
  have "try_extract JSON_parse (JStr s) = Inr (Some JNull)"
    by (simp add: try_extract_def fenced parsed)
  then show ?thesis
    unfolding parseAgentResponse_def Let_def data1_get
    using no_data t by (simp add: p get_def nullish_def)
qed

section \<open>The two definitions of parseAgentResponse\<close>










end
